theory Spec2Isabelle
  imports Complex_Main "HOL-Library.Multiset" "HOL-Library.AList"
begin

section \<open>Python values used by the core\<close>

text \<open>
  A Python \<open>str\<close> is a sequence of Unicode code points, so it is modelled as a list of
  natural numbers; \<open>str\<close> turns an ASCII literal into such a sequence.  The string
  methods below are the ones the core calls: \<open>startswith\<close>, \<open>endswith\<close>,
  \<open>strip()\<close> (no argument: removes the characters for which \<open>str.isspace\<close> holds),
  \<open>split(" ", 1)\<close> and \<open>sep.join(parts)\<close>.
\<close>

type_synonym pystr = "nat list"

definition str :: "string \<Rightarrow> pystr" where
  "str s = map of_char s"

definition startswith :: "pystr \<Rightarrow> pystr \<Rightarrow> bool" where
  "startswith s p = (take (length p) s = p)"

definition endswith :: "pystr \<Rightarrow> pystr \<Rightarrow> bool" where
  "endswith s p = (length p \<le> length s \<and> drop (length s - length p) s = p)"

definition isspace :: "nat \<Rightarrow> bool" where
  "isspace c = (c \<in> {9, 10, 11, 12, 13, 28, 29, 30, 31, 32, 133, 160, 5760,
     8192, 8193, 8194, 8195, 8196, 8197, 8198, 8199, 8200, 8201, 8202,
     8232, 8233, 8239, 8287, 12288})"

definition strip :: "pystr \<Rightarrow> pystr" where
  "strip s = rev (dropWhile isspace (rev (dropWhile isspace s)))"

text \<open>\<open>s.split(" ", 1)\<close>: at most one split, at the first space character U+0020.\<close>

definition split_space_once :: "pystr \<Rightarrow> pystr list" where
  "split_space_once s =
     (if 32 \<in> set s
      then [takeWhile (\<lambda>c. c \<noteq> 32) s, tl (dropWhile (\<lambda>c. c \<noteq> 32) s)]
      else [s])"

fun join :: "pystr \<Rightarrow> pystr list \<Rightarrow> pystr" where
  "join sep [] = []"
| "join sep [x] = x"
| "join sep (x # y # ys) = x @ sep @ join sep (y # ys)"

text \<open>A decoded JSON value; a frame and a segment dictionary are \<open>JDict\<close>s.\<close>

datatype jval =
    JNull
  | JBool bool
  | JNum int
  | JStr pystr
  | JList "jval list"
  | JDict "(pystr \<times> jval) list"

text \<open>\<open>d.get(k)\<close> on a decoded object: the first binding of the key, if any.\<close>

definition dict_get :: "(pystr \<times> jval) list \<Rightarrow> string \<Rightarrow> jval option" where
  "dict_get d k = map_of d (str k)"

section \<open>Message segments and events\<close>

text \<open>
  The segment classes of \<open>core/message.py\<close>.  \<open>BaseSegment\<close> stands for an instance of
  the base class or of a subclass that \<open>get_text\<close> does not name (\<open>node\<close>, \<open>forward\<close>);
  it carries its \<open>type\<close>.
\<close>

datatype segment =
    TextSegment pystr
  | ImageSegment pystr
  | AtSegment pystr
  | FaceSegment int
  | RecordSegment pystr
  | ReplySegment pystr
  | BaseSegment pystr

fun segment_type :: "segment \<Rightarrow> pystr" where
  "segment_type (TextSegment t) = str ''text''"
| "segment_type (ImageSegment f) = str ''image''"
| "segment_type (AtSegment q) = str ''at''"
| "segment_type (FaceSegment i) = str ''face''"
| "segment_type (RecordSegment f) = str ''record''"
| "segment_type (ReplySegment i) = str ''reply''"
| "segment_type (BaseSegment t) = t"

text \<open>The event classes of \<open>core/events.py\<close>; \<open>isinstance\<close> follows the class hierarchy.\<close>

datatype event_class =
    Event
  | MessageEvent | PrivateMessageEvent | GroupMessageEvent
  | NoticeEvent | GroupUploadNoticeEvent | GroupAdminNoticeEvent
  | GroupIncreaseNoticeEvent | GroupDecreaseNoticeEvent | GroupBanNoticeEvent
  | FriendAddNoticeEvent | GroupRecallNoticeEvent | FriendRecallNoticeEvent
  | GroupPokeNoticeEvent | GroupHonorNoticeEvent
  | RequestEvent | FriendRequestEvent | GroupAddRequestEvent | GroupInviteRequestEvent
  | MetaEvent | HeartbeatMetaEvent | LifecycleMetaEvent
  | LunarStartListen | LunarStopListen

definition is_MessageEvent :: "event_class \<Rightarrow> bool" where
  "is_MessageEvent c = (c = MessageEvent \<or> c = PrivateMessageEvent \<or> c = GroupMessageEvent)"

definition is_NoticeEvent :: "event_class \<Rightarrow> bool" where
  "is_NoticeEvent c = (c \<in> {NoticeEvent, GroupUploadNoticeEvent, GroupAdminNoticeEvent,
     GroupIncreaseNoticeEvent, GroupDecreaseNoticeEvent, GroupBanNoticeEvent,
     FriendAddNoticeEvent, GroupRecallNoticeEvent, FriendRecallNoticeEvent,
     GroupPokeNoticeEvent, GroupHonorNoticeEvent})"

definition is_RequestEvent :: "event_class \<Rightarrow> bool" where
  "is_RequestEvent c = (c \<in> {RequestEvent, FriendRequestEvent, GroupAddRequestEvent,
     GroupInviteRequestEvent})"

definition is_MetaEvent :: "event_class \<Rightarrow> bool" where
  "is_MetaEvent c = (c \<in> {MetaEvent, HeartbeatMetaEvent, LifecycleMetaEvent})"

definition is_LunarEvent :: "event_class \<Rightarrow> bool" where
  "is_LunarEvent c = (c = LunarStartListen \<or> c = LunarStopListen)"

text \<open>
  An event object: its class, the copy of the frame it was built from, the four fields
  \<open>Event.__init__\<close> initialises for command handling, and (meaningful for message
  events) the decoded segment list.  The remaining attributes of the subclasses are
  plain copies of \<open>raw_data\<close> entries and are read through \<open>raw_data\<close>.
\<close>

record event =
  cls :: event_class
  raw_data :: "(pystr \<times> jval) list"
  is_command :: bool
  command :: "pystr option"
  args :: "pystr option"
  processed_text :: "pystr option"
  message :: "segment list"

text \<open>\<open>Event.__init__\<close> followed by the subclass constructors.\<close>

definition new_event :: "event_class \<Rightarrow> (pystr \<times> jval) list \<Rightarrow> event" where
  "new_event c data =
     \<lparr>cls = c, raw_data = data, is_command = False, command = None, args = None,
      processed_text = None, message = []\<rparr>"

subsection \<open>\<open>MessageEvent.get_text\<close>\<close>

fun text_part :: "segment \<Rightarrow> pystr" where
  "text_part (TextSegment t) = t"
| "text_part (AtSegment q) = str ''@'' @ q"
| "text_part (ImageSegment f) = [91, 22270, 29255, 93]"
| "text_part (ReplySegment i) = [91, 22238, 22797, 93]"
| "text_part s = str ''['' @ segment_type s @ str '']''"

text \<open>The loop of \<open>get_text\<close> appends one part per segment to \<open>text_parts\<close>.\<close>

fun collect_text_parts :: "segment list \<Rightarrow> pystr list \<Rightarrow> pystr list" where
  "collect_text_parts [] text_parts = text_parts"
| "collect_text_parts (s # segs) text_parts =
     collect_text_parts segs (text_parts @ [text_part s])"

definition get_text :: "segment list \<Rightarrow> pystr" where
  "get_text msg = join (str '' '') (collect_text_parts msg [])"

subsection \<open>Command extraction in \<open>LunarBot._handle_message_event\<close>\<close>

text \<open>The configuration entries the core reads; \<open>None\<close> is an absent key.\<close>

record config =
  trigger_keyword :: "pystr option"

definition config_trigger_keyword :: "config \<Rightarrow> pystr" where
  "config_trigger_keyword cfg =
     (case trigger_keyword cfg of None \<Rightarrow> str ''/'' | Some k \<Rightarrow> k)"

text \<open>
  Lines 96 to 110 and 126 of \<open>_handle_message_event\<close>: the fields of the event after
  the text has been examined, before native commands and plugins see it.
\<close>

definition extract_command :: "config \<Rightarrow> event \<Rightarrow> event" where
  "extract_command cfg ev =
     (let trigger = config_trigger_keyword cfg;
          message_text = get_text (message ev)
      in if message_text \<noteq> [] \<and> startswith message_text trigger
         then
           (let command_full = strip (drop (length trigger) message_text);
                parts = split_space_once command_full;
                cmd = hd parts;
                rest = (if length parts > 1 then parts ! 1 else [])
            in ev\<lparr>is_command := True, command := Some cmd, args := Some rest,
                   processed_text := Some rest\<rparr>)
         else ev\<lparr>processed_text := Some message_text\<rparr>)"

text \<open>
  The specification's wording of the split: the remainder after the prefix is cut at
  its first whitespace character.
\<close>

definition spec_split_command :: "pystr \<Rightarrow> pystr \<times> pystr" where
  "spec_split_command remainder =
     (takeWhile (\<lambda>c. \<not> isspace c) remainder,
      drop 1 (dropWhile (\<lambda>c. \<not> isspace c) remainder))"

section \<open>Event classification: \<open>EventFactory.create_event\<close>\<close>

text \<open>The exceptions that the modelled code raises or lets through.\<close>

datatype error =
    ValueError
  | TypeError
  | ConnectionError
  | TimeoutError
  | CancelledError
  | ConnectionClosed
  | ServerError "jval option"
  | OtherException pystr






definition tag :: "string \<Rightarrow> jval option" where
  "tag s = Some (JStr (str s))"


section \<open>Plugins and dispatch: \<open>PluginManager.handle_event\<close>\<close>

text \<open>
  What the invocation of a handler reports: the truth value of what it returns, an
  exception of class \<open>Exception\<close> with its message, or an exception outside that
  class (a cancellation of the task, a keyboard interrupt, an exit of the interpreter).
  A handler is given by what it reports for the event it is called with.
\<close>

datatype base_exception = TaskCancelled | KeyboardInterrupt | SystemExit

datatype outcome = Returned bool | Raised pystr | RaisedBase base_exception

type_synonym handler = "event \<Rightarrow> outcome"

text \<open>
  A loaded plugin module: the attributes the core looks up with \<open>hasattr\<close> and
  \<open>getattr\<close>; \<open>None\<close> is an attribute the module does not have.
\<close>

record plugin_module =
  TRIGGHT_KEYWORD :: "pystr option"
  PLT_ST :: "int option"
  HELP_MESSAGE :: "pystr option"
  on_message :: "handler option"
  on_lunar_event :: "handler option"

datatype plugin_kind = FilePlugin | DirPlugin

text \<open>The dictionary \<open>plugin_info\<close> that \<open>load_plugins\<close> stores for a loaded plugin.\<close>

record plugin_info =
  module :: plugin_module
  kind :: plugin_kind
  path :: pystr
  trigger :: pystr
  help_message :: pystr
  enabled :: bool
  priority :: int

text \<open>
  \<open>self.plugins\<close> is a dictionary in insertion order: a list of name and
  \<open>plugin_info\<close>.  \<open>_sort_plugins_by_priority\<close> rebuilds it from
  \<open>sorted(items, key=priority)\<close>.
\<close>

type_synonym plugins = "(pystr \<times> plugin_info) list"

definition sort_plugins_by_priority :: "plugins \<Rightarrow> plugins" where
  "sort_plugins_by_priority ps = sort_key (\<lambda>x. priority (snd x)) ps"

text \<open>
  The trigger test of \<open>handle_event\<close> for an event that is not a lifecycle event:
  whether the plugin is triggered, and the event afterwards (a prefix match rewrites
  \<open>processed_text\<close>).
\<close>

definition should_trigger :: "config \<Rightarrow> event \<Rightarrow> plugin_info \<Rightarrow> bool \<times> event" where
  "should_trigger cfg ev plugin =
     (if is_MessageEvent (cls ev) then
        (if trigger plugin = str ''Any'' then (True, ev)
         else if is_command ev \<and> Some (trigger plugin) = command ev then (True, ev)
         else
           (let full_trigger = config_trigger_keyword cfg @ trigger plugin in
            if get_text (message ev) \<noteq> [] \<and> startswith (get_text (message ev)) full_trigger
            then (True, ev\<lparr>processed_text :=
                    Some (strip (drop (length full_trigger) (get_text (message ev))))\<rparr>)
            else (False, ev)))
      else (trigger plugin = str ''Any'', ev))"

text \<open>
  \<open>handle_event\<close>: the walk over \<open>self.plugins.items()\<close>.  The result is the returned
  truth value, or the exception that leaves the method, the event as the walk leaves it,
  and the handlers that were invoked, in order, each with what its invocation reported.
  An exception of class \<open>Exception\<close> raised by a handler is caught by the
  \<open>except Exception\<close> of the loop body and the walk goes on; an exception outside
  that class is not caught and leaves \<open>handle_event\<close>.
\<close>

fun handle_event ::
  "config \<Rightarrow> plugins \<Rightarrow> event \<Rightarrow>
     (base_exception + bool) \<times> event \<times> (pystr \<times> outcome) list" where
  "handle_event cfg [] ev = (Inr False, ev, [])"
| "handle_event cfg ((name, plugin) # rest) ev =
     (if is_LunarEvent (cls ev) then
        (case on_lunar_event (module plugin) of
           None \<Rightarrow> handle_event cfg rest ev
         | Some h \<Rightarrow>
             (case h ev of
                Returned True \<Rightarrow> (Inr True, ev, [(name, Returned True)])
              | RaisedBase b \<Rightarrow> (Inl b, ev, [(name, RaisedBase b)])
              | result \<Rightarrow>
                  (case handle_event cfg rest ev of
                     (handled, ev', invoked) \<Rightarrow> (handled, ev', (name, result) # invoked))))
      else
        (case should_trigger cfg ev plugin of
           (triggered, ev1) \<Rightarrow>
             (if triggered then
                (case on_message (module plugin) of
                   None \<Rightarrow> handle_event cfg rest ev1
                 | Some h \<Rightarrow>
                     (case h ev1 of
                        Returned True \<Rightarrow> (Inr True, ev1, [(name, Returned True)])
                      | RaisedBase b \<Rightarrow> (Inl b, ev1, [(name, RaisedBase b)])
                      | result \<Rightarrow>
                          (case handle_event cfg rest ev1 of
                             (handled, ev', invoked) \<Rightarrow>
                               (handled, ev', (name, result) # invoked))))
              else handle_event cfg rest ev1)))"

text \<open>
  Whether the walk invokes a handler of the plugin for this event: the plugin has the
  entry point for the kind of event and, for other than lifecycle events, is triggered.
\<close>

definition invocable :: "config \<Rightarrow> event \<Rightarrow> pystr \<times> plugin_info \<Rightarrow> bool" where
  "invocable cfg ev p =
     (if is_LunarEvent (cls ev) then on_lunar_event (module (snd p)) \<noteq> None
      else fst (should_trigger cfg ev (snd p)) \<and> on_message (module (snd p)) \<noteq> None)"

text \<open>
  The body of the loop for one plugin, read off \<open>handle_event\<close>: what the invoked
  handler reports (\<open>None\<close> when no handler is invoked) and the event afterwards.
\<close>

definition invoke :: "config \<Rightarrow> event \<Rightarrow> pystr \<times> plugin_info \<Rightarrow> outcome option \<times> event" where
  "invoke cfg ev p =
     (if is_LunarEvent (cls ev)
      then (map_option (\<lambda>h. h ev) (on_lunar_event (module (snd p))), ev)
      else
        (case should_trigger cfg ev (snd p) of
           (triggered, ev1) \<Rightarrow>
             (if triggered then map_option (\<lambda>h. h ev1) (on_message (module (snd p)))
              else None, ev1)))"

text \<open>A plugin whose handlers report "not handled" where they would raise.\<close>

definition calm :: "outcome \<Rightarrow> outcome" where
  "calm r = (case r of Raised e \<Rightarrow> Returned False | _ \<Rightarrow> r)"

definition quiet :: "handler \<Rightarrow> handler" where
  "quiet h = (\<lambda>ev. calm (h ev))"

definition quiet_plugin :: "pystr \<times> plugin_info \<Rightarrow> pystr \<times> plugin_info" where
  "quiet_plugin p =
     (fst p, (snd p)\<lparr>module := (module (snd p))
        \<lparr>on_message := map_option quiet (on_message (module (snd p))),
         on_lunar_event := map_option quiet (on_lunar_event (module (snd p)))\<rparr>\<rparr>)"

text \<open>
  Whether what a handler reports ends the walk, and what \<open>handle_event\<close> then gives
  back: "handled" makes it return true, an exception outside class \<open>Exception\<close>
  leaves it; after anything else the walk goes on, and it returns false when no plugin
  is left.
\<close>

fun ends_walk :: "outcome \<Rightarrow> bool" where
  "ends_walk (Returned True) = True"
| "ends_walk (RaisedBase b) = True"
| "ends_walk r = False"

fun outcome_result :: "outcome \<Rightarrow> base_exception + bool" where
  "outcome_result (Returned True) = Inr True"
| "outcome_result (RaisedBase b) = Inl b"
| "outcome_result r = Inr False"

text \<open>
  What the handlers of a registry report for an event, in registry order, if every
  plugin is reached: each plugin that \<open>invoke\<close> finds a handler to call for, with what
  that handler reports for the event as the plugins before it leave it.
\<close>

fun reports :: "config \<Rightarrow> event \<Rightarrow> plugins \<Rightarrow> (pystr \<times> outcome) list" where
  "reports cfg ev [] = []"
| "reports cfg ev (p # ps) =
     (case fst (invoke cfg ev p) of None \<Rightarrow> [] | Some r \<Rightarrow> [(fst p, r)])
     @ reports cfg (snd (invoke cfg ev p)) ps"

text \<open>
  The \<open>async for\<close> loop of \<open>LunarBot._listen_events\<close> for classified events that go
  to the plugins: each is dispatched through \<open>_handle_plugin_event\<close>, whose
  \<open>except Exception\<close>, like that of \<open>_listen_events\<close>, lets an exception outside class
  \<open>Exception\<close> through, so that such an exception ends the loop.  The result lists, for
  every event that was dispatched, what \<open>handle_event\<close> gave and the handlers it
  invoked.  The \<open>finally\<close> clause, which runs after the loop, is not part of it.
\<close>

fun listen_events ::
  "config \<Rightarrow> plugins \<Rightarrow> event list \<Rightarrow> ((base_exception + bool) \<times> (pystr \<times> outcome) list) list" where
  "listen_events cfg ps [] = []"
| "listen_events cfg ps (ev # evs) =
     (case handle_event cfg ps ev of
        (Inl b, ev', invoked) \<Rightarrow> [(Inl b, invoked)]
      | (Inr handled, ev', invoked) \<Rightarrow> (Inr handled, invoked) # listen_events cfg ps evs)"

text \<open>
  The handlers of the specification's examples 1 and 2: \<open>A\<close> with priority 1 and
  trigger \<open>ping\<close>, which reports "handled", and \<open>B\<close> with priority 2 and the wildcard
  trigger, which reports "not handled"; a plugin whose handler raises an exception of
  class \<open>Exception\<close>, one whose handler is cancelled and one whose handler exits the
  interpreter; and the group message event with a given text, after command extraction
  with the default prefix.
\<close>

definition example_plugin ::
  "string \<Rightarrow> string \<Rightarrow> int \<Rightarrow> outcome \<Rightarrow> pystr \<times> plugin_info" where
  "example_plugin name trig prio result =
     (str name,
      \<lparr>module = \<lparr>TRIGGHT_KEYWORD = Some (str trig), PLT_ST = Some prio,
          HELP_MESSAGE = None, on_message = Some (\<lambda>ev. result), on_lunar_event = None\<rparr>,
       kind = FilePlugin, path = str ''plugins/'' @ str name @ str ''.py'',
       trigger = str trig, help_message = [], enabled = True, priority = prio\<rparr>)"

definition example_A :: "pystr \<times> plugin_info" where
  "example_A = example_plugin ''a'' ''ping'' 1 (Returned True)"

definition example_B :: "pystr \<times> plugin_info" where
  "example_B = example_plugin ''b'' ''Any'' 2 (Returned False)"

definition example_raising :: "pystr \<times> plugin_info" where
  "example_raising = example_plugin ''c'' ''Any'' 0 (Raised (str ''boom''))"

definition example_cancelled :: "pystr \<times> plugin_info" where
  "example_cancelled = example_plugin ''k'' ''Any'' 0 (RaisedBase TaskCancelled)"

definition example_exit :: "pystr \<times> plugin_info" where
  "example_exit = example_plugin ''x'' ''Any'' 3 (RaisedBase SystemExit)"

definition example_message :: "string \<Rightarrow> event" where
  "example_message text =
     extract_command \<lparr>trigger_keyword = None\<rparr>
       ((new_event GroupMessageEvent [])\<lparr>message := [TextSegment (str text)]\<rparr>)"

section \<open>The plugin directory and \<open>PluginManager\<close>\<close>

text \<open>
  What importing a plugin file gives: no module specification, an exception with its
  message, or the executed module.
\<close>

datatype load_result = NoSpec | LoadError pystr | Loaded plugin_module

text \<open>
  An entry of the plugin directory: a file with its modification time and what
  importing it gives, or a directory with what importing its \<open>setup.py\<close> gives
  (\<open>None\<close> when it has none).  The directory is the list \<open>os.listdir\<close> returns,
  names with entries.
\<close>

datatype node = File real load_result | Dir "load_result option"

type_synonym directory = "(pystr \<times> node) list"

definition isfile :: "node \<Rightarrow> bool" where
  "isfile n = (case n of File t r \<Rightarrow> True | Dir s \<Rightarrow> False)"

definition isdir :: "node \<Rightarrow> bool" where
  "isdir n = (case n of File t r \<Rightarrow> False | Dir s \<Rightarrow> True)"

definition setup_py :: "node \<Rightarrow> load_result option" where
  "setup_py n = (case n of File t r \<Rightarrow> None | Dir s \<Rightarrow> s)"

text \<open>Importing the entry itself as a source file; a directory cannot be executed.\<close>

definition import_file :: "node \<Rightarrow> load_result" where
  "import_file n = (case n of File t r \<Rightarrow> r | Dir s \<Rightarrow> LoadError (str ''Is a directory''))"

definition exists :: "directory \<Rightarrow> pystr \<Rightarrow> bool" where
  "exists fs name = (name \<in> fst ` set fs)"

definition item_path :: "pystr \<Rightarrow> pystr" where
  "item_path item = str ''plugins/'' @ item"

record plugin_manager =
  plugins :: plugins
  enabled_plugins :: "pystr list"
  failed_plugins :: "(pystr \<times> pystr) list"
  file_timestamps :: "(pystr \<times> real) list"

subsection \<open>\<open>initialize_file_timestamps\<close> and one pass of \<open>monitor_plugin_files\<close>\<close>

fun timestamps_loop :: "directory \<Rightarrow> (pystr \<times> real) list \<Rightarrow> (pystr \<times> real) list" where
  "timestamps_loop [] ts = ts"
| "timestamps_loop ((item, n) # rest) ts =
     (if endswith item (str ''.py'') \<and> \<not> startswith item (str ''_'') \<and> isfile n
      then (case n of
              File mtime r \<Rightarrow> timestamps_loop rest (AList.update (item_path item) mtime ts)
            | Dir s \<Rightarrow> timestamps_loop rest ts)
      else timestamps_loop rest ts)"

definition initialize_file_timestamps :: "plugin_manager \<Rightarrow> directory \<Rightarrow> plugin_manager" where
  "initialize_file_timestamps pm fs = pm\<lparr>file_timestamps := timestamps_loop fs []\<rparr>"

text \<open>
  The \<open>for\<close> loop of one pass of the monitor: whether some watched file has a recorded
  time stamp that differs from its current one.
\<close>

fun change_detected :: "directory \<Rightarrow> (pystr \<times> real) list \<Rightarrow> bool" where
  "change_detected [] ts = False"
| "change_detected ((item, n) # rest) ts =
     (if endswith item (str ''.py'') \<and> \<not> startswith item (str ''_'') \<and> isfile n
      then (case n of
              File current_timestamp r \<Rightarrow>
                (case map_of ts (item_path item) of
                   Some recorded \<Rightarrow>
                     if current_timestamp \<noteq> recorded then True else change_detected rest ts
                 | None \<Rightarrow> change_detected rest ts)
            | Dir s \<Rightarrow> change_detected rest ts)
      else change_detected rest ts)"

text \<open>One pass: whether a reload is requested, and the manager afterwards.\<close>

definition monitor_pass :: "plugin_manager \<Rightarrow> directory \<Rightarrow> bool \<times> plugin_manager" where
  "monitor_pass pm fs =
     (if change_detected fs (file_timestamps pm)
      then (True, initialize_file_timestamps pm fs)
      else (False, pm))"

subsection \<open>\<open>load_plugins\<close>\<close>

type_synonym candidate = "pystr \<times> pystr \<times> plugin_kind \<times> load_result"

text \<open>
  The first loop: the candidates to load, each with its name, its path, its kind and
  what importing the file at that path gives.
\<close>

fun plugin_candidates_to_load :: "directory \<Rightarrow> candidate list" where
  "plugin_candidates_to_load [] = []"
| "plugin_candidates_to_load ((item, n) # rest) =
     (if endswith item (str ''.py'') \<and> \<not> startswith item (str ''_'') then
        (if startswith item (str ''d_'') then []
         else [(take (length item - 3) item, item_path item, FilePlugin, import_file n)])
      else if isdir n \<and> \<not> startswith item (str ''_'') then
        (if startswith item (str ''d_'') then []
         else (case setup_py n of
                 Some r \<Rightarrow> [(item, item_path item @ str ''/setup.py'', DirPlugin, r)]
               | None \<Rightarrow> []))
      else [])
     @ plugin_candidates_to_load rest"

definition load_candidate :: "candidate \<Rightarrow> plugin_manager \<Rightarrow> plugin_manager" where
  "load_candidate c pm =
     (case c of (name, p, k, result) \<Rightarrow>
       (case result of
          NoSpec \<Rightarrow>
            pm\<lparr>failed_plugins := AList.update name
              ([26080, 27861, 20026, 32] @ name @ [32, 21019, 24314, 27169, 22359, 35268, 33539])
              (failed_plugins pm)\<rparr>
        | LoadError e \<Rightarrow> pm\<lparr>failed_plugins := AList.update name e (failed_plugins pm)\<rparr>
        | Loaded m \<Rightarrow>
            (case TRIGGHT_KEYWORD m of
               None \<Rightarrow>
                 pm\<lparr>failed_plugins := AList.update name
                   ([32570, 23569, 32] @ str ''TRIGGHT_KEYWORD'' @ [32, 23646, 24615])
                   (failed_plugins pm)\<rparr>
             | Some trig \<Rightarrow>
                 pm\<lparr>plugins := AList.update name
                      \<lparr>module = m, kind = k, path = p, trigger = trig,
                       help_message = (case HELP_MESSAGE m of None \<Rightarrow> [] | Some h \<Rightarrow> h),
                       enabled = True,
                       priority = (case PLT_ST m of None \<Rightarrow> 999 | Some prio \<Rightarrow> prio)\<rparr>
                      (plugins pm),
                    enabled_plugins := enabled_plugins pm @ [name]\<rparr>)))"

fun load_candidates :: "candidate list \<Rightarrow> plugin_manager \<Rightarrow> plugin_manager" where
  "load_candidates [] pm = pm"
| "load_candidates (c # cs) pm = load_candidates cs (load_candidate c pm)"

definition load_plugins :: "plugin_manager \<Rightarrow> directory \<Rightarrow> plugin_manager" where
  "load_plugins pm fs =
     (let pm0 = pm\<lparr>plugins := [], enabled_plugins := [], failed_plugins := []\<rparr>;
          pm1 = load_candidates (plugin_candidates_to_load fs) pm0
      in pm1\<lparr>plugins := sort_plugins_by_priority (plugins pm1)\<rparr>)"

subsection \<open>\<open>get_plugin_list\<close>\<close>

text \<open>
  The four kinds of entry \<open>get_plugin_list\<close> writes: the stored information of a loaded
  plugin (without module and path), the record of a failed load with its error, the
  record of a unit enabled on disk that was neither loaded nor failed, and the record of
  a unit disabled on disk.
\<close>

datatype listing =
    ListedLoaded plugin_kind pystr pystr int
  | ListedFailed pystr
  | ListedNotLoaded
  | ListedDisabled

record plugin_list =
  enabled_on_disk :: "(pystr \<times> listing) list"
  disabled_on_disk :: "(pystr \<times> listing) list"

text \<open>The name an entry stands for and whether it is enabled on disk.\<close>

definition listed_name :: "pystr \<Rightarrow> node \<Rightarrow> pystr option \<times> bool" where
  "listed_name item n =
     (if endswith item (str ''.py'') \<and> \<not> startswith item (str ''_'') then
        (if startswith item (str ''d_'')
         then (Some (drop 2 (take (length item - 3) item)), False)
         else (Some (take (length item - 3) item), True))
      else if isdir n \<and> \<not> startswith item (str ''_'') then
        (case (if startswith item (str ''d_'') then (Some (drop 2 item), False)
               else (Some item, True)) of
           (name, is_enabled_on_disk) \<Rightarrow>
             if setup_py n = None then (None, is_enabled_on_disk)
             else (name, is_enabled_on_disk))
      else (None, True))"

fun get_plugin_list_loop :: "plugin_manager \<Rightarrow> directory \<Rightarrow> plugin_list \<Rightarrow> plugin_list" where
  "get_plugin_list_loop pm [] info = info"
| "get_plugin_list_loop pm ((item, n) # rest) info =
     get_plugin_list_loop pm rest
       (case listed_name item n of
          (None, is_enabled_on_disk) \<Rightarrow> info
        | (Some name, is_enabled_on_disk) \<Rightarrow>
            if name = [] then info
            else if is_enabled_on_disk then
              (case map_of (plugins pm) name of
                 Some pinfo \<Rightarrow>
                   info\<lparr>enabled_on_disk := AList.update name
                     (ListedLoaded (kind pinfo) (trigger pinfo) (help_message pinfo)
                        (priority pinfo)) (enabled_on_disk info)\<rparr>
               | None \<Rightarrow>
                   (case map_of (failed_plugins pm) name of
                      Some e \<Rightarrow>
                        info\<lparr>enabled_on_disk :=
                          AList.update name (ListedFailed e) (enabled_on_disk info)\<rparr>
                    | None \<Rightarrow>
                        info\<lparr>enabled_on_disk :=
                          AList.update name ListedNotLoaded (enabled_on_disk info)\<rparr>))
            else info\<lparr>disabled_on_disk :=
                   AList.update name ListedDisabled (disabled_on_disk info)\<rparr>)"

definition get_plugin_list :: "plugin_manager \<Rightarrow> directory \<Rightarrow> plugin_list" where
  "get_plugin_list pm fs =
     get_plugin_list_loop pm fs \<lparr>enabled_on_disk = [], disabled_on_disk = []\<rparr>"

subsection \<open>\<open>reload_plugins\<close>, \<open>enable_plugin\<close> and \<open>disable_plugin\<close>\<close>

text \<open>\<open>PluginManager.__init__\<close> for an existing plugin directory.\<close>

definition init_plugin_manager :: "directory \<Rightarrow> plugin_manager" where
  "init_plugin_manager fs =
     initialize_file_timestamps
       \<lparr>plugins = [], enabled_plugins = [], failed_plugins = [], file_timestamps = []\<rparr> fs"

definition reload_plugins :: "plugin_manager \<Rightarrow> directory \<Rightarrow> bool \<times> plugin_manager" where
  "reload_plugins pm fs = (True, initialize_file_timestamps (load_plugins pm fs) fs)"

text \<open>\<open>os.rename(found_path, new_path)\<close> inside the plugin directory.\<close>

definition rename :: "directory \<Rightarrow> pystr \<Rightarrow> pystr \<Rightarrow> directory" where
  "rename fs found new = map (\<lambda>e. if fst e = found then (new, snd e) else e) fs"

text \<open>
  The result of \<open>enable_plugin\<close> and \<open>disable_plugin\<close>: the returned truth value, the
  manager and the directory afterwards.  \<open>rename_ok\<close> tells whether \<open>os.rename\<close>
  succeeds when it is called (it raises \<open>OSError\<close> otherwise).
\<close>

definition enable_plugin ::
  "pystr \<Rightarrow> plugin_manager \<Rightarrow> directory \<Rightarrow> bool \<Rightarrow> bool \<times> plugin_manager \<times> directory" where
  "enable_plugin plugin_name pm fs rename_ok =
     (let enabled_py = plugin_name @ str ''.py'';
          enabled_dir = plugin_name
      in if exists fs enabled_py \<or> exists fs enabled_dir then
           (if plugin_name \<in> fst ` set (plugins pm) then (True, pm, fs)
            else if plugin_name \<in> fst ` set (failed_plugins pm) then
              (let pm' = snd (reload_plugins pm fs)
               in (plugin_name \<in> fst ` set (plugins pm'), pm', fs))
            else
              (let pm' = snd (reload_plugins pm fs)
               in (plugin_name \<in> fst ` set (plugins pm'), pm', fs)))
         else
           (let disabled_py = str ''d_'' @ plugin_name @ str ''.py'';
                disabled_dir = str ''d_'' @ plugin_name
            in case (if exists fs disabled_py then Some (disabled_py, enabled_py)
                     else if exists fs disabled_dir then Some (disabled_dir, enabled_dir)
                     else None) of
                 None \<Rightarrow> (False, pm, fs)
               | Some (found_path, new_path) \<Rightarrow>
                   if rename_ok then
                     (let fs' = rename fs found_path new_path
                      in (True, snd (reload_plugins pm fs'), fs'))
                   else (False, pm, fs)))"

definition disable_plugin ::
  "pystr \<Rightarrow> plugin_manager \<Rightarrow> directory \<Rightarrow> bool \<Rightarrow> bool \<times> plugin_manager \<times> directory" where
  "disable_plugin plugin_name pm fs rename_ok =
     (let disabled_py = str ''d_'' @ plugin_name @ str ''.py'';
          disabled_dir = str ''d_'' @ plugin_name
      in if exists fs disabled_py \<or> exists fs disabled_dir then
           (True, snd (reload_plugins pm fs), fs)
         else
           (let enabled_py = plugin_name @ str ''.py'';
                enabled_dir = plugin_name
            in case (if exists fs enabled_py then Some (enabled_py, disabled_py)
                     else if exists fs enabled_dir then Some (enabled_dir, disabled_dir)
                     else None) of
                 None \<Rightarrow> (False, pm, fs)
               | Some (found_path, new_path) \<Rightarrow>
                   if rename_ok then
                     (let fs' = rename fs found_path new_path
                      in (True, snd (reload_plugins pm fs'), fs'))
                   else (False, pm, fs)))"

text \<open>
  A plugin directory with the single file \<open>foo.py\<close>, given by its modification time
  and the module that importing it gives.
\<close>

definition example_directory :: "real \<Rightarrow> plugin_module \<Rightarrow> directory" where
  "example_directory mtime m = [(str ''foo.py'', File mtime (Loaded m))]"

section \<open>The connection: \<open>WebSocketConnection\<close>\<close>

text \<open>
  A future of the event loop is pending, holds a result, holds an exception, or is
  cancelled; it is done when it is not pending.  Futures are shared between the table
  of pending requests and the callers that await them, so the connection holds a store
  of futures by reference, and \<open>next_future\<close> is the reference the next
  \<open>create_future()\<close> returns.
\<close>

datatype future_state = Pending | Result jval | Failed error | Cancelled

record connection =
  max_retries :: int
  request_timeout :: real
  websocket :: bool
  pending_requests :: "(pystr \<times> nat) list"
  futures :: "nat \<Rightarrow> future_state"
  next_future :: nat
  listener_task :: bool
  message_queue :: "jval option list"
  is_closing :: bool

text \<open>
  \<open>__init__\<close> with its default arguments \<open>max_retries = 5\<close> and
  \<open>request_timeout = 30.0\<close>; the address and the token only build the URL.
\<close>

definition init_connection :: "int option \<Rightarrow> real option \<Rightarrow> connection" where
  "init_connection retries_arg timeout_arg =
     \<lparr>max_retries = (case retries_arg of None \<Rightarrow> 5 | Some n \<Rightarrow> n),
      request_timeout = (case timeout_arg of None \<Rightarrow> 30 | Some t \<Rightarrow> t),
      websocket = False, pending_requests = [], futures = (\<lambda>f. Pending), next_future = 0,
      listener_task = False, message_queue = [], is_closing = False\<rparr>"

subsection \<open>\<open>close\<close>\<close>

text \<open>
  The loop of \<open>close\<close> over \<open>list(self._pending_requests.items())\<close>: the store
  afterwards, and the futures on which \<open>cancel()\<close> was called, in order.
\<close>

fun cancel_pending ::
  "(pystr \<times> nat) list \<Rightarrow> (nat \<Rightarrow> future_state) \<Rightarrow> (nat \<Rightarrow> future_state) \<times> nat list" where
  "cancel_pending [] fs = (fs, [])"
| "cancel_pending ((request_id, future) # rest) fs =
     (if fs future = Pending then
        (case cancel_pending rest (fs(future := Cancelled)) of
           (fs', cancelled) \<Rightarrow> (fs', future # cancelled))
      else cancel_pending rest fs)"

text \<open>
  \<open>close\<close>: the listener task is cancelled and awaited (its \<open>finally\<close> clause, as
  the last lines of \<open>close\<close> do, empties the queue and puts the sentinel \<open>None\<close>),
  the socket is closed, every pending future that is not done is cancelled, and the
  table is cleared.
\<close>

definition close :: "connection \<Rightarrow> connection" where
  "close st =
     st\<lparr>is_closing := True, listener_task := False, websocket := False,
        futures := fst (cancel_pending (pending_requests st) (futures st)),
        pending_requests := [], message_queue := [None]\<rparr>"

subsection \<open>The body of \<open>_listen_loop\<close> for one decoded frame\<close>

definition truthy :: "jval \<Rightarrow> bool" where
  "truthy v =
     (case v of JNull \<Rightarrow> False | JBool b \<Rightarrow> b | JNum n \<Rightarrow> n \<noteq> 0 | JStr s \<Rightarrow> s \<noteq> []
      | JList l \<Rightarrow> l \<noteq> [] | JDict d \<Rightarrow> d \<noteq> [])"

definition frame_request_id :: "(pystr \<times> jval) list \<Rightarrow> jval option" where
  "frame_request_id data =
     (case dict_get data ''echo'' of
        Some (JDict echo) \<Rightarrow> dict_get echo ''request_id''
      | _ \<Rightarrow> None)"

definition enqueue :: "connection \<Rightarrow> (pystr \<times> jval) list \<Rightarrow> connection" where
  "enqueue st data = st\<lparr>message_queue := message_queue st @ [Some (JDict data)]\<rparr>"

text \<open>
  A frame with a request id resolves the pending future of that id, when there is one
  that is not done, and is queued otherwise; a request id that cannot be a dictionary
  key raises \<open>TypeError\<close>, which is logged, and the frame is dropped.
\<close>

definition listen_frame :: "connection \<Rightarrow> (pystr \<times> jval) list \<Rightarrow> connection" where
  "listen_frame st data =
     (case frame_request_id data of
        None \<Rightarrow> enqueue st data
      | Some request_id \<Rightarrow>
          if \<not> truthy request_id then enqueue st data
          else
            (case request_id of
               JStr r \<Rightarrow>
                 (case map_of (pending_requests st) r of
                    None \<Rightarrow> enqueue st data
                  | Some future \<Rightarrow>
                      if futures st future = Pending then
                        (if dict_get data ''status'' = tag ''error''
                         then st\<lparr>futures := (futures st)
                                (future := Failed (ServerError (dict_get data ''message'')))\<rparr>
                         else st\<lparr>futures := (futures st)(future := Result (JDict data))\<rparr>)
                      else enqueue st data)
             | JList l \<Rightarrow> st
             | JDict d \<Rightarrow> st
             | _ \<Rightarrow> enqueue st data))"

subsection \<open>\<open>send\<close>\<close>

text \<open>
  What serialising and transmitting the payload does, and what happens while the caller
  awaits its future: frames reach the listener and \<open>close\<close> may be called, each at a
  time in seconds after the wait began, in order of occurrence.
\<close>

datatype transmit = Sent | SendConnectionClosed | SendInterrupted | SendFailed pystr

datatype wait_event = Frame "(pystr \<times> jval) list" | CloseCalled

record send_env =
  new_request_id :: pystr
  transmission :: transmit
  while_waiting :: "(real \<times> wait_event) list"

definition wait_step :: "connection \<Rightarrow> wait_event \<Rightarrow> connection" where
  "wait_step st e = (case e of Frame data \<Rightarrow> listen_frame st data | CloseCalled \<Rightarrow> close st)"

text \<open>
  \<open>asyncio.wait_for(future, timeout)\<close>: the events before the deadline take effect
  one after the other until the future is done; a future still pending at the deadline
  is cancelled by \<open>wait_for\<close>, which raises the time-out.
\<close>

fun await_future :: "real \<Rightarrow> nat \<Rightarrow> (real \<times> wait_event) list \<Rightarrow> connection \<Rightarrow> connection" where
  "await_future timeout future [] st = st"
| "await_future timeout future ((t, e) # rest) st =
     (if t < timeout \<and> futures st future = Pending
      then await_future timeout future rest (wait_step st e)
      else st)"

definition pop :: "pystr \<Rightarrow> (pystr \<times> nat) list \<Rightarrow> (pystr \<times> nat) list" where
  "pop request_id table = AList.delete request_id table"

text \<open>The \<open>finally\<close> clause of \<open>send\<close> for a call that awaits a response.\<close>

definition send_finally :: "pystr \<Rightarrow> nat \<Rightarrow> connection \<Rightarrow> connection" where
  "send_finally request_id future st =
     (if request_id \<in> fst ` set (pending_requests st) \<and> futures st future \<noteq> Pending
      then st\<lparr>pending_requests := pop request_id (pending_requests st)\<rparr>
      else st)"

text \<open>
  \<open>send(data, wait_for_response)\<close>: the returned response (\<open>None\<close> when the method
  returns \<open>None\<close>) or the exception that leaves the call, and the connection afterwards.
  The payload matters only through whether it is serialised and transmitted.
\<close>

definition send :: "connection \<Rightarrow> bool \<Rightarrow> send_env \<Rightarrow> (error + jval option) \<times> connection" where
  "send st wait_for_response env =
     (if \<not> websocket st then
        (if wait_for_response then (Inl ConnectionError, st) else (Inr None, st))
      else if \<not> wait_for_response then
        (case transmission env of
           Sent \<Rightarrow> (Inr None, st)
         | SendConnectionClosed \<Rightarrow> (Inl ConnectionClosed, st)
         | SendInterrupted \<Rightarrow> (Inr None, st)
         | SendFailed m \<Rightarrow> (Inl (OtherException m), st))
      else
        (let request_id = new_request_id env;
             future = next_future st;
             st1 = st\<lparr>next_future := Suc future,
                     futures := (futures st)(future := Pending),
                     pending_requests := AList.update request_id future (pending_requests st)\<rparr>
         in case transmission env of
              Sent \<Rightarrow>
                (let st2 = await_future (request_timeout st1) future (while_waiting env) st1
                 in case futures st2 future of
                      Pending \<Rightarrow>
                        (Inl TimeoutError,
                         send_finally request_id future
                           (st2\<lparr>futures := (futures st2)(future := Cancelled)\<rparr>))
                    | Result response \<Rightarrow> (Inr (Some response), send_finally request_id future st2)
                    | Failed e \<Rightarrow> (Inl e, send_finally request_id future st2)
                    | Cancelled \<Rightarrow> (Inl CancelledError, send_finally request_id future st2))
            | SendConnectionClosed \<Rightarrow>
                (Inl ConnectionClosed,
                 send_finally request_id future
                   (st1\<lparr>pending_requests := pop request_id (pending_requests st1),
                        futures := (futures st1)(future := Failed ConnectionClosed)\<rparr>))
            | SendInterrupted \<Rightarrow>
                (Inr None,
                 send_finally request_id future
                   (st1\<lparr>futures := (futures st1)(future := Cancelled)\<rparr>))
            | SendFailed m \<Rightarrow>
                (Inl (OtherException m),
                 send_finally request_id future
                   (st1\<lparr>pending_requests := pop request_id (pending_requests st1),
                        futures := (futures st1)(future := Failed (OtherException m))\<rparr>))))"


subsection \<open>\<open>connect\<close>\<close>

text \<open>
  What one call of \<open>websockets.connect\<close> does: it connects, it raises an exception
  (\<open>ConnectionClosed\<close> or another \<open>Exception\<close>, which the loop treats alike), or it
  is interrupted from the keyboard.  The environment of \<open>connect\<close> gives the outcome of
  the attempt made after \<open>k\<close> failures, and whether \<open>close\<close> has been called by the
  time the loop tests \<open>_is_closing\<close> after \<open>k\<close> failures.
\<close>

datatype attempt = Connects | Fails | Interrupted

record connect_env =
  attempt_result :: "nat \<Rightarrow> attempt"
  closing_before :: "nat \<Rightarrow> bool"

text \<open>
  The variables of the loop: the connection, \<open>retries\<close>, and, to observe the loop, the
  number of calls of \<open>websockets.connect\<close> and the waiting times slept so far.
\<close>

record connect_loop =
  conn :: connection
  retries :: nat
  attempts :: nat
  sleeps :: "nat list"

definition wait_time :: "nat \<Rightarrow> nat" where
  "wait_time r = min (2 ^ r) 60"

datatype connect_run = Running connect_loop | Done bool connect_loop

text \<open>
  One test of the loop condition and, when it holds, one pass through the body of the
  \<open>while\<close> loop: the loop goes on, or \<open>connect\<close> returns.
\<close>

definition connect_iteration :: "bool \<Rightarrow> connect_env \<Rightarrow> connect_loop \<Rightarrow> connect_run" where
  "connect_iteration is_reconnect env s =
     (if \<not> (is_reconnect \<or> int (retries s) < max_retries (conn s)) then Done False s
      else if is_closing (conn s) \<or> closing_before env (retries s)
        then Done False (s\<lparr>conn := (conn s)\<lparr>is_closing := True\<rparr>\<rparr>)
      else
        (case attempt_result env (retries s) of
           Connects \<Rightarrow>
             Done True (s\<lparr>attempts := Suc (attempts s),
               conn := (conn s)\<lparr>websocket := True, listener_task := True\<rparr>\<rparr>)
         | Interrupted \<Rightarrow>
             Done False (s\<lparr>attempts := Suc (attempts s),
               conn := (conn s)\<lparr>is_closing := True\<rparr>\<rparr>)
         | Fails \<Rightarrow>
             (if int (Suc (retries s)) < max_retries (conn s) \<or> is_reconnect
              then Running (s\<lparr>retries := Suc (retries s), attempts := Suc (attempts s),
                     sleeps := sleeps s @ [wait_time (Suc (retries s))]\<rparr>)
              else Done False (s\<lparr>retries := Suc (retries s),
                     attempts := Suc (attempts s)\<rparr>))))"

text \<open>
  The loop run for at most a given number of iterations: \<open>Running\<close> when it has not
  returned by then.
\<close>

fun connect_iterations :: "nat \<Rightarrow> bool \<Rightarrow> connect_env \<Rightarrow> connect_loop \<Rightarrow> connect_run" where
  "connect_iterations 0 is_reconnect env s = Running s"
| "connect_iterations (Suc n) is_reconnect env s =
     (case connect_iteration is_reconnect env s of
        Done r s' \<Rightarrow> Done r s'
      | Running s' \<Rightarrow> connect_iterations n is_reconnect env s')"

definition connect :: "nat \<Rightarrow> connection \<Rightarrow> bool \<Rightarrow> connect_env \<Rightarrow> connect_run" where
  "connect n st is_reconnect env =
     connect_iterations n is_reconnect env \<lparr>conn = st, retries = 0, attempts = 0, sleeps = []\<rparr>"

text \<open>The entries of the directory whose names do not begin with an underscore.\<close>

definition without_underscore :: "directory \<Rightarrow> directory" where
  "without_underscore fs = filter (\<lambda>e. \<not> startswith (fst e) (str ''_'')) fs"

section \<open>Derived text of a message event\<close>

lemma join_snoc:
  "ps \<noteq> [] \<Longrightarrow> join sep (ps @ [p]) = join sep ps @ sep @ p"
  by (induction sep ps rule: join.induct) auto

lemma collect_text_parts_eq:
  "collect_text_parts segs acc = acc @ map text_part segs"
  by (induction segs arbitrary: acc) auto

lemma join_append:
  "xs \<noteq> [] \<Longrightarrow> ys \<noteq> [] \<Longrightarrow> join sep (xs @ ys) = join sep xs @ sep @ join sep ys"
  by (induction sep xs rule: join.induct) (auto simp: neq_Nil_conv)

text \<open>
  Claim C9, as the code has it: the derived plain text of a message event is made of one
  part per segment, in order, with a single space U+0020 between consecutive parts.  A
  text segment contributes its content, an image segment the fixed token \<open>[\<dots>]\<close> of code
  points 91, 22270, 29255, 93, a reply segment the fixed token 91, 22238, 22797, 93, a
  mention segment \<open>@\<close> followed by its \<open>qq\<close>, and any other segment its type in square
  brackets.
\<close>

theorem get_text_joined_parts:
  "get_text [] = [] \<and>
   get_text [TextSegment t] = t \<and>
   get_text [ImageSegment f] = [91, 22270, 29255, 93] \<and>
   get_text [ReplySegment i] = [91, 22238, 22797, 93] \<and>
   get_text [AtSegment q] = 64 # q \<and>
   get_text [FaceSegment n] = str ''[face]'' \<and>
   get_text [RecordSegment f] = str ''[record]'' \<and>
   get_text [BaseSegment ty] = [91] @ ty @ [93] \<and>
   get_text (xs @ ys) =
     (if xs = [] then get_text ys else if ys = [] then get_text xs
      else get_text xs @ [32] @ get_text ys)"
  by (simp add: get_text_def collect_text_parts_eq join_append str_def)

theorem get_text_joined_parts_witness:
  "get_text ([TextSegment (str ''hi'')] @ [ImageSegment (str ''x.png'')]) =
     str ''hi'' @ [32] @ [91, 22270, 29255, 93]"
  using get_text_joined_parts [where t = "str ''hi''" and f = "str ''x.png''"
      and xs = "[TextSegment (str ''hi'')]" and ys = "[ImageSegment (str ''x.png'')]"]
  by simp

text \<open>
  Claim C9 as the specification words it (plain concatenation, one fixed placeholder per
  non-text segment) fails: two text segments \<open>a\<close> and \<open>b\<close> give \<open>a b\<close>, not \<open>ab\<close>,
  and two mention segments with different \<open>qq\<close> render differently.
\<close>

theorem get_text_concat_counterexample:
  "get_text [TextSegment (str ''a''), TextSegment (str ''b'')] \<noteq> str ''a'' @ str ''b'' \<and>
   get_text [AtSegment (str ''1'')] \<noteq> get_text [AtSegment (str ''2'')]"
  by (simp add: get_text_def str_def)

section \<open>Command extraction\<close>

lemma split_space_once_cases:
  "split_space_once r = [r] \<and> 32 \<notin> set r \<or>
   (\<exists>c a. split_space_once r = [c, a] \<and> r = c @ [32] @ a \<and> 32 \<notin> set c)"
proof (cases "32 \<in> set r")
  case False
  then show ?thesis by (simp add: split_space_once_def)
next
  case True
  let ?c = "takeWhile (\<lambda>c. c \<noteq> 32) r"
  let ?d = "dropWhile (\<lambda>c. c \<noteq> 32) r"
  from True have ne: "?d \<noteq> []" by (simp add: dropWhile_eq_Nil_conv)
  then have "hd ?d = 32" using hd_dropWhile[of "\<lambda>c. c \<noteq> 32" r] by auto
  with ne have d: "?d = 32 # tl ?d" by (cases ?d) auto
  have "r = ?c @ ?d" by simp
  with d have "r = ?c @ [32] @ tl ?d" by simp
  moreover have "32 \<notin> set ?c" using set_takeWhileD by fastforce
  ultimately show ?thesis using True by (auto simp: split_space_once_def)
qed

text \<open>
  Claim C8, as the code has it.  When the derived text is non-empty and starts with the
  trigger prefix, the remainder after the prefix is first stripped of leading and
  trailing whitespace and then cut at its first space character U+0020: the command is
  the part before that space (and contains no space), the argument remainder the part
  after it, empty when the stripped remainder has no space; the processed text is the
  argument remainder.  Otherwise no command is extracted (the command fields keep their
  values) and the whole text becomes the processed text.
\<close>

theorem extract_command_split:
  "(let trigger = config_trigger_keyword cfg;
        text = get_text (message ev);
        remainder = strip (drop (length trigger) text);
        ev' = extract_command cfg ev
    in if text \<noteq> [] \<and> startswith text trigger
       then is_command ev' \<and> processed_text ev' = args ev' \<and>
            (\<exists>cmd rest. command ev' = Some cmd \<and> args ev' = Some rest \<and> 32 \<notin> set cmd \<and>
               (if 32 \<in> set remainder then remainder = cmd @ [32] @ rest
                else cmd = remainder \<and> rest = []))
       else is_command ev' = is_command ev \<and> command ev' = command ev \<and>
            args ev' = args ev \<and> processed_text ev' = Some text)"
proof -
  let ?r = "strip (drop (length (config_trigger_keyword cfg)) (get_text (message ev)))"
  from split_space_once_cases[of ?r]
  show ?thesis
    by (auto simp: extract_command_def Let_def)
qed

theorem extract_command_split_witness:
  "command (extract_command \<lparr>trigger_keyword = None\<rparr>
      ((new_event GroupMessageEvent [])\<lparr>message := [TextSegment (str ''/ ping x'')]\<rparr>))
     = Some (str ''ping'') \<and>
   processed_text (extract_command \<lparr>trigger_keyword = Some (str ''#'')\<rparr>
      ((new_event GroupMessageEvent [])\<lparr>message := [TextSegment (str ''/ping x'')]\<rparr>))
     = Some (str ''/ping x'')"
  using extract_command_split [of "\<lparr>trigger_keyword = None\<rparr>"
      "(new_event GroupMessageEvent [])\<lparr>message := [TextSegment (str ''/ ping x'')]\<rparr>"]
    extract_command_split [of "\<lparr>trigger_keyword = Some (str ''#'')\<rparr>"
      "(new_event GroupMessageEvent [])\<lparr>message := [TextSegment (str ''/ping x'')]\<rparr>"]
  by (simp add: extract_command_def Let_def get_text_def str_def startswith_def strip_def
      isspace_def split_space_once_def config_trigger_keyword_def new_event_def)

text \<open>
  Claim C8 as the specification words it (a cut at the first whitespace of the remainder)
  fails.  For the text \<open>/cmd<TAB>arg\<close> the code finds no space and takes the whole
  remainder as the command, where a cut at the first whitespace gives \<open>cmd\<close> and
  \<open>arg\<close>; for \<open>/ ping x\<close> the code strips the remainder first and gives \<open>ping\<close> and
  \<open>x\<close>, where a cut at the first whitespace gives an empty command.
\<close>

theorem extract_command_whitespace_counterexample:
  "(let ev = extract_command \<lparr>trigger_keyword = None\<rparr>
       ((new_event GroupMessageEvent [])\<lparr>message := [TextSegment (str ''/cmd'' @ [9] @ str ''arg'')]\<rparr>)
    in (the (command ev), the (args ev))) = (str ''cmd'' @ [9] @ str ''arg'', []) \<and>
   spec_split_command (str ''cmd'' @ [9] @ str ''arg'') = (str ''cmd'', str ''arg'') \<and>
   (let ev = extract_command \<lparr>trigger_keyword = None\<rparr>
       ((new_event GroupMessageEvent [])\<lparr>message := [TextSegment (str ''/ ping x'')]\<rparr>)
    in (the (command ev), the (args ev))) = (str ''ping'', str ''x'') \<and>
   spec_split_command (str '' ping x'') = ([], str ''ping x'')"
  by (simp add: extract_command_def Let_def get_text_def str_def startswith_def strip_def
      isspace_def split_space_once_def config_trigger_keyword_def new_event_def
      spec_split_command_def)

section \<open>Event classification\<close>





section \<open>Entries hidden by an underscore\<close>

lemma timestamps_loop_underscore:
  "timestamps_loop (without_underscore fs) ts = timestamps_loop fs ts"
  by (induction fs ts rule: timestamps_loop.induct)
     (auto simp: without_underscore_def isfile_def split: node.splits)

lemma change_detected_underscore:
  "change_detected (without_underscore fs) ts = change_detected fs ts"
  by (induction fs ts rule: change_detected.induct)
     (auto simp: without_underscore_def isfile_def split: node.splits option.splits)

lemma candidates_underscore:
  "plugin_candidates_to_load (without_underscore fs) = plugin_candidates_to_load fs"
  by (induction fs rule: plugin_candidates_to_load.induct)
     (simp_all add: without_underscore_def)

lemma listed_name_underscore:
  "startswith item (str ''_'') \<Longrightarrow> fst (listed_name item n) = None"
  by (simp add: listed_name_def)

lemma get_plugin_list_loop_underscore:
  "get_plugin_list_loop pm (without_underscore fs) info = get_plugin_list_loop pm fs info"
proof (induction fs arbitrary: info)
  case Nil
  show ?case by (simp add: without_underscore_def)
next
  case (Cons e fs)
  obtain item n where e: "e = (item, n)" by (cases e)
  show ?case
  proof (cases "startswith item (str ''_'')")
    case True
    then obtain b where "listed_name item n = (None, b)"
      using listed_name_underscore[of item n] by (cases "listed_name item n") auto
    then have "get_plugin_list_loop pm (e # fs) info = get_plugin_list_loop pm fs info"
      unfolding e by simp
    with True Cons.IH[of info] show ?thesis
      by (simp add: without_underscore_def e)
  next
    case False
    with Cons.IH show ?thesis
      by (simp add: without_underscore_def e)
  qed
qed


lemma startswith_underscore_take:
  "\<not> startswith item (str ''_'') \<Longrightarrow> \<not> startswith (take k item) (str ''_'')"
  by (cases item; cases k) (auto simp: startswith_def str_def)

lemma candidates_names:
  "c \<in> set (plugin_candidates_to_load fs) \<Longrightarrow> \<not> startswith (fst c) (str ''_'')"
  by (induction fs rule: plugin_candidates_to_load.induct)
     (auto simp: startswith_underscore_take split: if_splits option.splits)

lemma load_candidate_keys:
  "fst ` set (plugins (load_candidate c pm)) \<subseteq> insert (fst c) (fst ` set (plugins pm)) \<and>
   fst ` set (failed_plugins (load_candidate c pm)) \<subseteq> insert (fst c) (fst ` set (failed_plugins pm)) \<and>
   set (enabled_plugins (load_candidate c pm)) \<subseteq> insert (fst c) (set (enabled_plugins pm))"
  by (cases c) (auto simp: load_candidate_def dom_update split: load_result.splits option.splits)

lemma load_candidates_plugins:
  "x \<in> fst ` set (plugins (load_candidates cs pm)) \<Longrightarrow> x \<in> fst ` set cs \<or> x \<in> fst ` set (plugins pm)"
proof (induction cs arbitrary: pm)
  case Nil
  then show ?case by simp
next
  case (Cons c cs)
  from Cons.prems have "x \<in> fst ` set (plugins (load_candidates cs (load_candidate c pm)))" by simp
  from Cons.IH[OF this] have "x \<in> fst ` set cs \<or> x \<in> fst ` set (plugins (load_candidate c pm))" .
  moreover have "fst ` set (plugins (load_candidate c pm)) \<subseteq> insert (fst c) (fst ` set (plugins pm))"
    using load_candidate_keys[of c pm] by blast
  ultimately show ?case by auto
qed

lemma load_candidates_failed:
  "x \<in> fst ` set (failed_plugins (load_candidates cs pm)) \<Longrightarrow> x \<in> fst ` set cs \<or> x \<in> fst ` set (failed_plugins pm)"
proof (induction cs arbitrary: pm)
  case Nil
  then show ?case by simp
next
  case (Cons c cs)
  from Cons.prems have "x \<in> fst ` set (failed_plugins (load_candidates cs (load_candidate c pm)))" by simp
  from Cons.IH[OF this] have "x \<in> fst ` set cs \<or> x \<in> fst ` set (failed_plugins (load_candidate c pm))" .
  moreover have "fst ` set (failed_plugins (load_candidate c pm)) \<subseteq> insert (fst c) (fst ` set (failed_plugins pm))"
    using load_candidate_keys[of c pm] by blast
  ultimately show ?case by auto
qed

lemma load_candidates_enabled:
  "x \<in> set (enabled_plugins (load_candidates cs pm)) \<Longrightarrow> x \<in> fst ` set cs \<or> x \<in> set (enabled_plugins pm)"
proof (induction cs arbitrary: pm)
  case Nil
  then show ?case by simp
next
  case (Cons c cs)
  from Cons.prems have "x \<in> set (enabled_plugins (load_candidates cs (load_candidate c pm)))" by simp
  from Cons.IH[OF this] have "x \<in> fst ` set cs \<or> x \<in> set (enabled_plugins (load_candidate c pm))" .
  moreover have "set (enabled_plugins (load_candidate c pm)) \<subseteq> insert (fst c) (set (enabled_plugins pm))"
    using load_candidate_keys[of c pm] by blast
  ultimately show ?case by auto
qed

lemma load_plugins_names:
  assumes "name \<in> fst ` set (plugins (load_plugins pm fs)) \<or>
      name \<in> fst ` set (failed_plugins (load_plugins pm fs)) \<or>
      name \<in> set (enabled_plugins (load_plugins pm fs))"
  shows "\<not> startswith name (str ''_'')"
proof -
  let ?pm0 = "pm\<lparr>plugins := [], enabled_plugins := [], failed_plugins := []\<rparr>"
  let ?cs = "plugin_candidates_to_load fs"
  have "set (sort_plugins_by_priority ps) = set ps" for ps
    by (simp add: sort_plugins_by_priority_def)
  with assms have "name \<in> fst ` set (plugins (load_candidates ?cs ?pm0)) \<or>
      name \<in> fst ` set (failed_plugins (load_candidates ?cs ?pm0)) \<or>
      name \<in> set (enabled_plugins (load_candidates ?cs ?pm0))"
    by (simp add: load_plugins_def Let_def)
  with load_candidates_plugins[of name ?cs ?pm0] load_candidates_failed[of name ?cs ?pm0]
    load_candidates_enabled[of name ?cs ?pm0]
  have "name \<in> fst ` set ?cs" by auto
  then show ?thesis using candidates_names by auto
qed

lemma timestamps_loop_keys:
  "k \<in> fst ` set (timestamps_loop fs ts) \<Longrightarrow>
     k \<in> fst ` set ts \<or> k \<in> item_path ` fst ` set fs"
proof (induction fs arbitrary: ts)
  case Nil
  then show ?case by simp
next
  case (Cons e fs)
  obtain item n where e: "e = (item, n)" by (cases e)
  show ?case
  proof (cases "endswith item (str ''.py'') \<and> \<not> startswith item (str ''_'') \<and> isfile n")
    case False
    with Cons.prems have "k \<in> fst ` set (timestamps_loop fs ts)"
      unfolding e by auto
    from Cons.IH[OF this] show ?thesis by auto
  next
    case True
    then obtain mtime r where n: "n = File mtime r" by (cases n) (auto simp: isfile_def)
    with True Cons.prems
    have "k \<in> fst ` set (timestamps_loop fs (AList.update (item_path item) mtime ts))"
      unfolding e by simp
    from Cons.IH[OF this] show ?thesis
      unfolding e by (auto simp: dom_update)
  qed
qed

lemma item_path_inj: "item_path a = item_path b \<longleftrightarrow> a = b"
  by (simp add: item_path_def)

lemma timestamps_underscore:
  assumes "startswith item (str ''_'')"
  shows "item_path item \<notin> fst ` set (file_timestamps (initialize_file_timestamps pm fs))"
proof
  assume "item_path item \<in> fst ` set (file_timestamps (initialize_file_timestamps pm fs))"
  then have "item_path item \<in> fst ` set (timestamps_loop (without_underscore fs) [])"
    by (simp add: initialize_file_timestamps_def timestamps_loop_underscore)
  from timestamps_loop_keys[OF this]
  have "item_path item \<in> item_path ` fst ` set (without_underscore fs)" by simp
  then have "item \<in> fst ` set (without_underscore fs)"
    by (force simp: item_path_inj)
  with assms show False by (auto simp: without_underscore_def)
qed

text \<open>
  Claim C10.  An entry of the plugin directory whose name begins with an underscore is
  ignored: loading, the snapshot listing, the recording of time stamps and a pass of the
  file monitor give the same result as on the directory without such entries; no plugin,
  load failure or enabled name of a load has the entry's name, and the entry's path has no
  recorded time stamp.
\<close>

theorem underscore_entries_ignored:
  "load_plugins pm (without_underscore fs) = load_plugins pm fs \<and>
   get_plugin_list pm (without_underscore fs) = get_plugin_list pm fs \<and>
   initialize_file_timestamps pm (without_underscore fs) = initialize_file_timestamps pm fs \<and>
   monitor_pass pm (without_underscore fs) = monitor_pass pm fs \<and>
   (\<forall>item. startswith item (str ''_'') \<longrightarrow>
      item \<notin> fst ` set (plugins (load_plugins pm fs)) \<and>
      item \<notin> fst ` set (failed_plugins (load_plugins pm fs)) \<and>
      item \<notin> set (enabled_plugins (load_plugins pm fs)) \<and>
      item_path item \<notin> fst ` set (file_timestamps (initialize_file_timestamps pm fs)))"
proof -
  have 1: "load_plugins pm (without_underscore fs) = load_plugins pm fs"
    by (simp add: load_plugins_def candidates_underscore)
  have 2: "get_plugin_list pm (without_underscore fs) = get_plugin_list pm fs"
    by (simp add: get_plugin_list_def get_plugin_list_loop_underscore)
  have 3: "initialize_file_timestamps pm (without_underscore fs) = initialize_file_timestamps pm fs"
    by (simp add: initialize_file_timestamps_def timestamps_loop_underscore)
  have 4: "monitor_pass pm (without_underscore fs) = monitor_pass pm fs"
    by (simp add: monitor_pass_def change_detected_underscore 3)
  have 5: "\<forall>item. startswith item (str ''_'') \<longrightarrow>
      item \<notin> fst ` set (plugins (load_plugins pm fs)) \<and>
      item \<notin> fst ` set (failed_plugins (load_plugins pm fs)) \<and>
      item \<notin> set (enabled_plugins (load_plugins pm fs)) \<and>
      item_path item \<notin> fst ` set (file_timestamps (initialize_file_timestamps pm fs))"
    using load_plugins_names[of _ pm fs] timestamps_underscore[of _ pm fs] by blast
  from 1 2 3 4 5 show ?thesis by blast
qed


theorem underscore_entries_ignored_witness:
  "failed_plugins (load_plugins (init_plugin_manager [])
      [(str ''_broken.py'', File 7 (LoadError (str ''boom''))),
       (str ''foo.py'', File 1 (Loaded (module (snd example_A))))]) = [] \<and>
   map fst (plugins (load_plugins (init_plugin_manager [])
      [(str ''_broken.py'', File 7 (LoadError (str ''boom''))),
       (str ''foo.py'', File 1 (Loaded (module (snd example_A))))])) = [str ''foo''] \<and>
   file_timestamps (initialize_file_timestamps (init_plugin_manager [])
      [(str ''_broken.py'', File 7 (LoadError (str ''boom''))),
       (str ''foo.py'', File 1 (Loaded (module (snd example_A))))]) = [(str ''plugins/foo.py'', 1)]"
  using underscore_entries_ignored [of "init_plugin_manager []"
      "[(str ''_broken.py'', File 7 (LoadError (str ''boom''))),
        (str ''foo.py'', File 1 (Loaded (module (snd example_A))))]"]
  by (simp add: without_underscore_def load_plugins_def load_candidate_def
      initialize_file_timestamps_def init_plugin_manager_def item_path_def
      sort_plugins_by_priority_def import_file_def isfile_def
      startswith_def endswith_def str_def example_A_def example_plugin_def)

section \<open>Enabling and disabling a unit that is already in the target state\<close>

lemma load_candidate_timestamps:
  "load_candidate c (pm\<lparr>file_timestamps := ts\<rparr>) = (load_candidate c pm)\<lparr>file_timestamps := ts\<rparr>"
  by (cases c) (simp add: load_candidate_def split: load_result.splits option.splits)

lemma load_candidates_timestamps:
  "load_candidates cs (pm\<lparr>file_timestamps := ts\<rparr>) = (load_candidates cs pm)\<lparr>file_timestamps := ts\<rparr>"
  by (induction cs arbitrary: pm) (simp_all add: load_candidate_timestamps)

lemma reload_plugins_directory_only:
  "snd (reload_plugins pm fs) = snd (reload_plugins (init_plugin_manager []) fs)"
proof -
  let ?E = "\<lparr>plugins = [], enabled_plugins = [], failed_plugins = [], file_timestamps = []\<rparr>"
  have eq: "pm\<lparr>plugins := [], enabled_plugins := [], failed_plugins := []\<rparr> =
      ?E\<lparr>file_timestamps := file_timestamps pm\<rparr>"
    by simp
  have E: "?E\<lparr>plugins := [], enabled_plugins := [], failed_plugins := []\<rparr> = ?E"
    by simp
  have "load_plugins pm fs = (load_plugins ?E fs)\<lparr>file_timestamps := file_timestamps pm\<rparr>"
    unfolding load_plugins_def Let_def eq E load_candidates_timestamps by simp
  then show ?thesis
    by (simp add: reload_plugins_def initialize_file_timestamps_def init_plugin_manager_def)
qed

text \<open>
  Claim C6, as the code has it.  \<open>disable_plugin\<close> on a unit that is already disabled
  on disk performs a full reload and returns true.  \<open>enable_plugin\<close> on a unit whose
  enabled file or directory exists returns true without reloading when the unit is
  loaded, and otherwise performs a full reload and returns whether the unit is loaded
  afterwards.  A reload leaves a manager that depends on the directory only, and
  reloading twice is reloading once.
\<close>

theorem enable_disable_in_target_state:
  "(exists fs (str ''d_'' @ name @ str ''.py'') \<or> exists fs (str ''d_'' @ name) \<longrightarrow>
      disable_plugin name pm fs rename_ok = (True, snd (reload_plugins pm fs), fs)) \<and>
   (exists fs (name @ str ''.py'') \<or> exists fs name \<longrightarrow>
      enable_plugin name pm fs rename_ok =
        (if name \<in> fst ` set (plugins pm) then (True, pm, fs)
         else (name \<in> fst ` set (plugins (snd (reload_plugins pm fs))),
               snd (reload_plugins pm fs), fs))) \<and>
   snd (reload_plugins pm fs) = snd (reload_plugins (init_plugin_manager []) fs) \<and>
   reload_plugins (snd (reload_plugins pm fs)) fs = reload_plugins pm fs"
proof -
  have "reload_plugins (snd (reload_plugins pm fs)) fs = reload_plugins pm fs"
    using reload_plugins_directory_only[of "snd (reload_plugins pm fs)" fs]
      reload_plugins_directory_only[of pm fs]
    by (simp add: reload_plugins_def)
  then show ?thesis
    using reload_plugins_directory_only[of pm fs]
    by (simp add: enable_plugin_def disable_plugin_def Let_def)
qed

lemmas plugin_manager_eval = load_plugins_def load_candidate_def reload_plugins_def
  initialize_file_timestamps_def init_plugin_manager_def item_path_def
  sort_plugins_by_priority_def import_file_def isfile_def isdir_def setup_py_def exists_def
  startswith_def endswith_def str_def example_A_def example_B_def example_plugin_def
  example_directory_def enable_plugin_def disable_plugin_def rename_def Let_def

text \<open>
  Claim C6 as the specification words it (enabling an enabled unit still reloads) fails
  for a loaded unit: with \<open>foo.py\<close> loaded with trigger \<open>ping\<close> and then changed on
  disk to the wildcard trigger, \<open>enable_plugin\<close> returns true and leaves the manager as
  it was, with the trigger \<open>ping\<close>, where a reload gives the wildcard trigger.
\<close>

theorem enable_loaded_no_reload_counterexample:
  "enable_plugin (str ''foo'')
      (snd (reload_plugins (init_plugin_manager []) (example_directory 1 (module (snd example_A)))))
      (example_directory 2 (module (snd example_B))) True =
     (True,
      snd (reload_plugins (init_plugin_manager []) (example_directory 1 (module (snd example_A)))),
      example_directory 2 (module (snd example_B))) \<and>
   map (\<lambda>x. trigger (snd x)) (plugins
      (snd (reload_plugins (init_plugin_manager []) (example_directory 1 (module (snd example_A))))))
     = [str ''ping''] \<and>
   map (\<lambda>x. trigger (snd x)) (plugins
      (snd (reload_plugins
         (snd (reload_plugins (init_plugin_manager []) (example_directory 1 (module (snd example_A)))))
         (example_directory 2 (module (snd example_B))))))
     = [str ''Any'']"
  by (simp add: plugin_manager_eval)

theorem enable_disable_in_target_state_witness:
  "disable_plugin (str ''foo'') (init_plugin_manager [])
      [(str ''d_foo.py'', File 1 (Loaded (module (snd example_A))))] True =
     (True, \<lparr>plugins = [], enabled_plugins = [], failed_plugins = [],
        file_timestamps = [(str ''plugins/d_foo.py'', 1)]\<rparr>,
      [(str ''d_foo.py'', File 1 (Loaded (module (snd example_A))))]) \<and>
   fst (enable_plugin (str ''foo'') (init_plugin_manager [])
      (example_directory 1 (module (snd example_A))) True)"
  using enable_disable_in_target_state [of
      "[(str ''d_foo.py'', File 1 (Loaded (module (snd example_A))))]" "str ''foo''"
      "init_plugin_manager []" True]
    enable_disable_in_target_state [of
      "example_directory 1 (module (snd example_A))" "str ''foo''"
      "init_plugin_manager []" True]
  by (simp add: plugin_manager_eval)

section \<open>Closing the connection\<close>

lemma cancel_pending_Cons_pending:
  "fs future = Pending \<Longrightarrow>
     cancel_pending ((request_id, future) # tbl) fs =
       (fst (cancel_pending tbl (fs(future := Cancelled))),
        future # snd (cancel_pending tbl (fs(future := Cancelled))))"
  by (simp add: case_prod_beta)

lemma cancel_pending_Cons_done:
  "fs future \<noteq> Pending \<Longrightarrow>
     cancel_pending ((request_id, future) # tbl) fs = cancel_pending tbl fs"
  by simp

lemma cancel_pending_futures:
  "fst (cancel_pending tbl fs) f =
     (if f \<in> snd ` set tbl \<and> fs f = Pending then Cancelled else fs f)"
proof (induction tbl arbitrary: fs)
  case Nil
  show ?case by simp
next
  case (Cons e tbl)
  obtain request_id future where e: "e = (request_id, future)" by (cases e)
  show ?case
  proof (cases "fs future = Pending")
    case True
    have "fst (cancel_pending (e # tbl) fs) f =
        fst (cancel_pending tbl (fs(future := Cancelled))) f"
      unfolding e by (simp only: cancel_pending_Cons_pending[where fs=fs and future=future, OF True] fst_conv)
    also have "\<dots> = (if f \<in> snd ` set tbl \<and> (fs(future := Cancelled)) f = Pending
        then Cancelled else (fs(future := Cancelled)) f)"
      by (rule Cons.IH)
    also have "\<dots> = (if f \<in> snd ` set (e # tbl) \<and> fs f = Pending then Cancelled else fs f)"
      using True unfolding e by (cases "f = future") auto
    finally show ?thesis .
  next
    case False
    have "fst (cancel_pending (e # tbl) fs) f = fst (cancel_pending tbl fs) f"
      unfolding e by (simp only: cancel_pending_Cons_done[where fs=fs and future=future, OF False])
    also have "\<dots> = (if f \<in> snd ` set tbl \<and> fs f = Pending then Cancelled else fs f)"
      by (rule Cons.IH)
    also have "\<dots> = (if f \<in> snd ` set (e # tbl) \<and> fs f = Pending then Cancelled else fs f)"
      using False unfolding e by auto
    finally show ?thesis .
  qed
qed

lemma cancel_pending_cancelled:
  "distinct (snd (cancel_pending tbl fs)) \<and>
   set (snd (cancel_pending tbl fs)) = {f \<in> snd ` set tbl. fs f = Pending}"
proof (induction tbl arbitrary: fs)
  case Nil
  show ?case by simp
next
  case (Cons e tbl)
  obtain request_id future where e: "e = (request_id, future)" by (cases e)
  show ?case
  proof (cases "fs future = Pending")
    case True
    let ?c = "snd (cancel_pending tbl (fs(future := Cancelled)))"
    from Cons.IH[of "fs(future := Cancelled)"]
    have d: "distinct ?c"
      and s: "set ?c = {f \<in> snd ` set tbl. (fs(future := Cancelled)) f = Pending}"
      by blast+
    from s have s': "set ?c = {f \<in> snd ` set tbl. f \<noteq> future \<and> fs f = Pending}"
      by auto
    have c: "snd (cancel_pending ((request_id, future) # tbl) fs) = future # ?c"
      by (simp only: cancel_pending_Cons_pending[where fs=fs and future=future, OF True] snd_conv)
    from d s' True show ?thesis
      unfolding e c by auto
  next
    case False
    have c: "cancel_pending ((request_id, future) # tbl) fs = cancel_pending tbl fs"
      by (simp only: cancel_pending_Cons_done[where fs=fs and future=future, OF False])
    from Cons.IH[of fs] False show ?thesis
      unfolding e c by auto
  qed
qed

text \<open>
  Claim C1, as the code has it.  After \<open>close\<close> the table of pending requests is
  empty, the connection is marked closing, the socket is gone and the queue holds the
  sentinel alone.  Every future of the table that was pending is cancelled, and
  \<open>cancel()\<close> is called on it exactly once; a future that was already done keeps its
  outcome, and no other future is touched.
\<close>

theorem close_cancels_pending:
  "pending_requests (close st) = [] \<and> is_closing (close st) \<and> \<not> websocket (close st) \<and>
   message_queue (close st) = [None] \<and>
   (\<forall>f. futures (close st) f =
      (if f \<in> snd ` set (pending_requests st) \<and> futures st f = Pending then Cancelled
       else futures st f)) \<and>
   distinct (snd (cancel_pending (pending_requests st) (futures st))) \<and>
   set (snd (cancel_pending (pending_requests st) (futures st))) =
     {f \<in> snd ` set (pending_requests st). futures st f = Pending}"
  using cancel_pending_cancelled[of "pending_requests st" "futures st"]
  by (simp add: close_def cancel_pending_futures)

theorem close_cancels_pending_witness:
  "futures (close ((init_connection None None)
      \<lparr>websocket := True, pending_requests := [(str ''abc123'', 0), (str ''def456'', 1)],
       futures := (\<lambda>f. Pending)(1 := Result JNull), next_future := 2\<rparr>)) 0 = Cancelled \<and>
   futures (close ((init_connection None None)
      \<lparr>websocket := True, pending_requests := [(str ''abc123'', 0), (str ''def456'', 1)],
       futures := (\<lambda>f. Pending)(1 := Result JNull), next_future := 2\<rparr>)) 1 = Result JNull"
  using close_cancels_pending [of "(init_connection None None)
      \<lparr>websocket := True, pending_requests := [(str ''abc123'', 0), (str ''def456'', 1)],
       futures := (\<lambda>f. Pending)(1 := Result JNull), next_future := 2\<rparr>"]
  by (simp add: init_connection_def)

text \<open>
  Claim C1 as the specification words it (each pending request fails with a
  \<open>ConnectionClosed\<close> error) fails: with the request \<open>abc123\<close> pending, \<open>close\<close>
  leaves its future cancelled, not failed with \<open>ConnectionClosed\<close>, and the caller of
  a \<open>send\<close> that is waiting when \<open>close\<close> runs gets \<open>CancelledError\<close>.
\<close>

theorem close_connection_closed_counterexample:
  "futures (close ((init_connection None None)
      \<lparr>websocket := True, pending_requests := [(str ''abc123'', 0)], next_future := 1\<rparr>)) 0
     \<noteq> Failed ConnectionClosed \<and>
   futures (close ((init_connection None None)
      \<lparr>websocket := True, pending_requests := [(str ''abc123'', 0)], next_future := 1\<rparr>)) 0
     = Cancelled \<and>
   fst (send ((init_connection None None)\<lparr>websocket := True\<rparr>) True
      \<lparr>new_request_id = str ''abc123'', transmission = Sent,
       while_waiting = [(1, CloseCalled)]\<rparr>) = Inl CancelledError"
  by (simp add: close_def init_connection_def send_def wait_step_def send_finally_def Let_def)

section \<open>A request without a response\<close>











section \<open>Dispatch\<close>

lemma should_trigger_event:
  "snd (should_trigger cfg ev plugin) =
     ev\<lparr>processed_text := processed_text (snd (should_trigger cfg ev plugin))\<rparr>"
  by (simp add: should_trigger_def Let_def)

lemma invoke_event:
  "snd (invoke cfg ev p) = ev\<lparr>processed_text := processed_text (snd (invoke cfg ev p))\<rparr>"
proof (cases "is_LunarEvent (cls ev)")
  case True
  then show ?thesis by (simp add: invoke_def)
next
  case False
  obtain t ev1 where st: "should_trigger cfg ev (snd p) = (t, ev1)" by force
  with should_trigger_event[of cfg ev "snd p"]
  have "ev1 = ev\<lparr>processed_text := processed_text ev1\<rparr>" by simp
  with False st show ?thesis by (simp add: invoke_def)
qed

lemma should_trigger_processed_text:
  "fst (should_trigger cfg (ev\<lparr>processed_text := x\<rparr>) plugin) = fst (should_trigger cfg ev plugin)"
  by (simp add: should_trigger_def Let_def)

lemma invocable_processed_text:
  "invocable cfg (ev\<lparr>processed_text := x\<rparr>) p = invocable cfg ev p"
  by (simp add: invocable_def should_trigger_processed_text)

lemma invoke_invocable: "fst (invoke cfg ev p) \<noteq> None \<longleftrightarrow> invocable cfg ev p"
proof (cases "is_LunarEvent (cls ev)")
  case True
  then show ?thesis by (simp add: invoke_def invocable_def)
next
  case False
  obtain t ev1 where st: "should_trigger cfg ev (snd p) = (t, ev1)" by force
  with False show ?thesis by (simp add: invoke_def invocable_def)
qed


lemma handle_event_step_none:
  assumes "fst (invoke cfg ev p) = None"
  shows "handle_event cfg (p # rest) ev = handle_event cfg rest (snd (invoke cfg ev p))"
proof -
  obtain name plugin where p: "p = (name, plugin)" by (cases p)
  obtain t ev1 where st: "should_trigger cfg ev plugin = (t, ev1)" by force
  show ?thesis
    using assms unfolding p
    by (cases "is_LunarEvent (cls ev)") (auto simp: invoke_def st split: if_splits)
qed

lemma handle_event_step_ends:
  assumes "fst (invoke cfg ev p) = Some r" and "ends_walk r"
  shows "handle_event cfg (p # rest) ev =
    (outcome_result r, snd (invoke cfg ev p), [(fst p, r)])"
proof -
  obtain name plugin where p: "p = (name, plugin)" by (cases p)
  obtain t ev1 where st: "should_trigger cfg ev plugin = (t, ev1)" by force
  from assms(2) consider "r = Returned True" | b where "r = RaisedBase b"
    by (cases r rule: ends_walk.cases) auto
  then show ?thesis
  proof cases
    case 1
    with assms(1) show ?thesis unfolding p
      by (cases "is_LunarEvent (cls ev)") (auto simp: invoke_def st split: if_splits)
  next
    case 2
    with assms(1) show ?thesis unfolding p
      by (cases "is_LunarEvent (cls ev)") (auto simp: invoke_def st split: if_splits)
  qed
qed

lemma handle_event_step_continue:
  assumes "fst (invoke cfg ev p) = Some r" and "\<not> ends_walk r"
  shows "handle_event cfg (p # rest) ev =
    (case handle_event cfg rest (snd (invoke cfg ev p)) of
       (handled, ev', invoked) \<Rightarrow> (handled, ev', (fst p, r) # invoked))"
proof -
  obtain name plugin where p: "p = (name, plugin)" by (cases p)
  obtain t ev1 where st: "should_trigger cfg ev plugin = (t, ev1)" by force
  from assms(2) consider "r = Returned False" | m where "r = Raised m"
    by (cases r rule: ends_walk.cases) auto
  then show ?thesis
  proof cases
    case 1
    with assms(1) show ?thesis unfolding p
      by (cases "is_LunarEvent (cls ev)") (auto simp: invoke_def st split: if_splits)
  next
    case 2
    with assms(1) show ?thesis unfolding p
      by (cases "is_LunarEvent (cls ev)") (auto simp: invoke_def st split: if_splits)
  qed
qed

lemma outcome_result_continue: "\<not> ends_walk r \<Longrightarrow> outcome_result r = Inr False"
  by (cases r rule: ends_walk.cases) auto

lemma invocable_invoke:
  "invocable cfg (snd (invoke cfg ev p)) = invocable cfg ev"
proof
  fix q
  show "invocable cfg (snd (invoke cfg ev p)) q = invocable cfg ev q"
    by (subst invoke_event) (rule invocable_processed_text)
qed

lemma handle_event_walk:
  "handle_event cfg ps ev = (res, ev', invoked) \<Longrightarrow>
     map fst invoked = map fst (take (length invoked) (filter (invocable cfg ev) ps)) \<and>
     length invoked \<le> length (filter (invocable cfg ev) ps) \<and>
     ev' = ev\<lparr>processed_text := processed_text ev'\<rparr>"
proof (induction ps arbitrary: ev res ev' invoked)
  case Nil
  then show ?case by auto
next
  case (Cons p rest)
  let ?ev1 = "snd (invoke cfg ev p)"
  have ev1: "?ev1 = ev\<lparr>processed_text := processed_text ?ev1\<rparr>" by (rule invoke_event)
  have inv: "invocable cfg ?ev1 = invocable cfg ev" by (rule invocable_invoke)
  show ?case
  proof (cases "fst (invoke cfg ev p)")
    case None
    then have np: "\<not> invocable cfg ev p" using invoke_invocable[of cfg ev p] by simp
    from None Cons.prems have "handle_event cfg rest ?ev1 = (res, ev', invoked)"
      by (simp add: handle_event_step_none)
    from Cons.IH[OF this] have ih:
      "map fst invoked = map fst (take (length invoked) (filter (invocable cfg ev) rest))"
      "length invoked \<le> length (filter (invocable cfg ev) rest)"
      "ev' = ?ev1\<lparr>processed_text := processed_text ev'\<rparr>"
      unfolding inv by blast+
    from ih(3) ev1 have "ev' = ev\<lparr>processed_text := processed_text ev'\<rparr>"
      by (metis event.surjective event.update_convs(6))
    with ih np show ?thesis by simp
  next
    case (Some r)
    then have ip: "invocable cfg ev p" using invoke_invocable[of cfg ev p] by simp
    show ?thesis
    proof (cases "ends_walk r")
      case True
      with Some Cons.prems have "ev' = ?ev1" "invoked = [(fst p, r)]"
        by (simp_all add: handle_event_step_ends)
      with ip ev1 show ?thesis by simp
    next
      case False
      obtain h e t where rest: "handle_event cfg rest ?ev1 = (h, e, t)"
        by (cases "handle_event cfg rest ?ev1") auto
      with Some False Cons.prems have res: "res = h" "ev' = e" "invoked = (fst p, r) # t"
        by (simp_all add: handle_event_step_continue)
      from Cons.IH[OF rest] have ih:
        "map fst t = map fst (take (length t) (filter (invocable cfg ev) rest))"
        "length t \<le> length (filter (invocable cfg ev) rest)"
        "e = ?ev1\<lparr>processed_text := processed_text e\<rparr>"
        unfolding inv by blast+
      from ih(3) ev1 have "e = ev\<lparr>processed_text := processed_text e\<rparr>"
        by (metis event.surjective event.update_convs(6))
      with ih(1-2) ip res show ?thesis by auto
    qed
  qed
qed

lemma handle_event_reports:
  "handle_event cfg ps ev = (res, ev', invoked) \<Longrightarrow>
     invoked = takeWhile (\<lambda>x. \<not> ends_walk (snd x)) (reports cfg ev ps) @
               take 1 (dropWhile (\<lambda>x. \<not> ends_walk (snd x)) (reports cfg ev ps)) \<and>
     res = (if invoked = [] then Inr False else outcome_result (snd (last invoked)))"
proof (induction ps arbitrary: ev res ev' invoked)
  case Nil
  then show ?case by auto
next
  case (Cons p rest)
  let ?ev1 = "snd (invoke cfg ev p)"
  show ?case
  proof (cases "fst (invoke cfg ev p)")
    case None
    with Cons.prems have "handle_event cfg rest ?ev1 = (res, ev', invoked)"
      by (simp add: handle_event_step_none)
    from Cons.IH[OF this] None show ?thesis by simp
  next
    case (Some r)
    show ?thesis
    proof (cases "ends_walk r")
      case True
      with Some Cons.prems have "res = outcome_result r" "invoked = [(fst p, r)]"
        by (simp_all add: handle_event_step_ends)
      with Some True show ?thesis by simp
    next
      case False
      obtain h e t where rest: "handle_event cfg rest ?ev1 = (h, e, t)"
        by (cases "handle_event cfg rest ?ev1") auto
      with Some False Cons.prems have res: "res = h" "invoked = (fst p, r) # t"
        by (simp_all add: handle_event_step_continue)
      from Cons.IH[OF rest] have ih:
        "t = takeWhile (\<lambda>x. \<not> ends_walk (snd x)) (reports cfg ?ev1 rest) @
             take 1 (dropWhile (\<lambda>x. \<not> ends_walk (snd x)) (reports cfg ?ev1 rest))"
        "h = (if t = [] then Inr False else outcome_result (snd (last t)))"
        by blast+
      have 1: "invoked = takeWhile (\<lambda>x. \<not> ends_walk (snd x)) (reports cfg ev (p # rest)) @
               take 1 (dropWhile (\<lambda>x. \<not> ends_walk (snd x)) (reports cfg ev (p # rest)))"
        using Some False ih(1) res(2) by simp
      have 2: "res = (if invoked = [] then Inr False else outcome_result (snd (last invoked)))"
        using ih(2) res False by (simp add: outcome_result_continue)
      from 1 2 show ?thesis by blast
    qed
  qed
qed

lemma should_trigger_quiet:
  "should_trigger cfg ev (snd (quiet_plugin p)) = should_trigger cfg ev (snd p)"
  by (simp add: should_trigger_def quiet_plugin_def)

lemma invoke_quiet:
  "invoke cfg ev (quiet_plugin p) = (map_option calm (fst (invoke cfg ev p)), snd (invoke cfg ev p))"
proof (cases "is_LunarEvent (cls ev)")
  case True
  then show ?thesis
    by (cases "on_lunar_event (module (snd p))")
      (simp_all add: invoke_def quiet_plugin_def quiet_def)
next
  case False
  obtain t ev1 where st: "should_trigger cfg ev (snd p) = (t, ev1)" by force
  then have "should_trigger cfg ev (snd (quiet_plugin p)) = (t, ev1)"
    by (simp add: should_trigger_quiet)
  with st False show ?thesis
    by (cases "on_message (module (snd p))")
      (simp_all add: invoke_def quiet_plugin_def quiet_def)
qed

lemma calm_ends_walk: "ends_walk (calm r) = ends_walk r"
  by (cases r rule: ends_walk.cases) (simp_all add: calm_def)

lemma calm_outcome_result: "outcome_result (calm r) = outcome_result r"
  by (cases r rule: ends_walk.cases) (simp_all add: calm_def)

lemma handle_event_quiet:
  "handle_event cfg (map quiet_plugin ps) ev =
     (case handle_event cfg ps ev of
        (res, ev', invoked) \<Rightarrow> (res, ev', map (\<lambda>x. (fst x, calm (snd x))) invoked))"
proof (induction ps arbitrary: ev)
  case Nil
  show ?case by simp
next
  case (Cons p rest)
  let ?ev1 = "snd (invoke cfg ev p)"
  have q: "fst (invoke cfg ev (quiet_plugin p)) = map_option calm (fst (invoke cfg ev p))"
    "snd (invoke cfg ev (quiet_plugin p)) = ?ev1"
    by (simp_all add: invoke_quiet)
  have qn: "fst (quiet_plugin p) = fst p"
    by (simp add: quiet_plugin_def)
  show ?case
  proof (cases "fst (invoke cfg ev p)")
    case None
    with q qn Cons.IH[of ?ev1] show ?thesis
      by (simp add: handle_event_step_none)
  next
    case (Some r)
    show ?thesis
    proof (cases "ends_walk r")
      case True
      with Some q qn show ?thesis
        by (simp add: handle_event_step_ends calm_ends_walk calm_outcome_result)
    next
      case False
      with Some q qn Cons.IH[of ?ev1] show ?thesis
        by (simp add: handle_event_step_continue calm_ends_walk split: prod.splits)
    qed
  qed
qed

lemma invoked_subset_reports:
  assumes "handle_event cfg ps ev = (res, ev', invoked)"
  shows "set invoked \<subseteq> set (reports cfg ev ps)"
proof -
  let ?P = "\<lambda>x. \<not> ends_walk (snd x)"
  let ?rs = "reports cfg ev ps"
  from handle_event_reports[OF assms]
  have "invoked = takeWhile ?P ?rs @ take 1 (dropWhile ?P ?rs)" by blast
  moreover have "set (takeWhile ?P ?rs) \<subseteq> set ?rs"
    by (auto dest: set_takeWhileD)
  moreover have "set (take 1 (dropWhile ?P ?rs)) \<subseteq> set ?rs"
    by (meson set_dropWhileD set_take_subset subset_eq)
  ultimately show ?thesis by (metis Un_least set_append)
qed

lemma handle_event_returns:
  assumes "\<forall>x \<in> set (reports cfg ev ps). \<forall>b. snd x \<noteq> RaisedBase b"
  shows "\<exists>handled. fst (handle_event cfg ps ev) = Inr handled"
proof -
  obtain res ev' invoked where run: "handle_event cfg ps ev = (res, ev', invoked)"
    by (cases "handle_event cfg ps ev") auto
  from handle_event_reports[OF run]
  have res: "res = (if invoked = [] then Inr False else outcome_result (snd (last invoked)))"
    by blast
  show ?thesis
  proof (cases "invoked = []")
    case True
    with res run have "fst (handle_event cfg ps ev) = Inr False" by simp
    then show ?thesis by (rule exI)
  next
    case False
    then have "last invoked \<in> set (reports cfg ev ps)"
      using invoked_subset_reports[OF run] by auto
    with assms have nb: "\<forall>b. snd (last invoked) \<noteq> RaisedBase b" by blast
    then obtain handled where "outcome_result (snd (last invoked)) = Inr handled"
      by (cases "snd (last invoked)" rule: ends_walk.cases) auto
    with False res run have "fst (handle_event cfg ps ev) = Inr handled" by simp
    then show ?thesis by (rule exI)
  qed
qed

lemma listen_events_all:
  assumes "\<forall>e \<in> set evs. \<forall>x \<in> set (reports cfg e ps). \<forall>b. snd x \<noteq> RaisedBase b"
  shows "listen_events cfg ps evs =
     map (\<lambda>e. (fst (handle_event cfg ps e), snd (snd (handle_event cfg ps e)))) evs"
  using assms
proof (induction evs)
  case Nil
  show ?case by simp
next
  case (Cons e evs)
  from Cons.prems have "\<forall>x \<in> set (reports cfg e ps). \<forall>b. snd x \<noteq> RaisedBase b" by simp
  from handle_event_returns[OF this] obtain handled where
    h: "fst (handle_event cfg ps e) = Inr handled" by blast
  then obtain ev' invoked where run: "handle_event cfg ps e = (Inr handled, ev', invoked)"
    by (cases "handle_event cfg ps e") auto
  from Cons.prems have "\<forall>e \<in> set evs. \<forall>x \<in> set (reports cfg e ps). \<forall>b. snd x \<noteq> RaisedBase b"
    by simp
  from Cons.IH[OF this] run show ?case by simp
qed

lemma listen_events_base:
  assumes "fst (handle_event cfg ps ev) = Inl b"
  shows "listen_events cfg ps (ev # evs) = [(Inl b, snd (snd (handle_event cfg ps ev)))]"
proof -
  from assms obtain ev' invoked where "handle_event cfg ps ev = (Inl b, ev', invoked)"
    by (cases "handle_event cfg ps ev") auto
  then show ?thesis by simp
qed

lemma reports_invocable:
  "map fst (reports cfg ev ps) = map fst (filter (invocable cfg ev) ps)"
proof (induction ps arbitrary: ev)
  case Nil
  show ?case by simp
next
  case (Cons p rest)
  have inv: "invocable cfg (snd (invoke cfg ev p)) = invocable cfg ev" by (rule invocable_invoke)
  from Cons.IH[of "snd (invoke cfg ev p)"]
  have ih: "map fst (reports cfg (snd (invoke cfg ev p)) rest) =
      map fst (filter (invocable cfg ev) rest)"
    unfolding inv .
  show ?case
  proof (cases "fst (invoke cfg ev p)")
    case None
    then have "\<not> invocable cfg ev p" using invoke_invocable[of cfg ev p] by simp
    with None ih show ?thesis by simp
  next
    case (Some r)
    then have "invocable cfg ev p" using invoke_invocable[of cfg ev p] by simp
    with Some ih show ?thesis by simp
  qed
qed

lemma walk_prefix:
  fixes P :: "'a \<Rightarrow> bool"
  assumes "invoked = takeWhile P rs @ take 1 (dropWhile P rs)"
  shows "\<forall>x \<in> set (butlast invoked). P x"
    and "(\<forall>x \<in> set rs. P x) \<longleftrightarrow> (invoked = [] \<or> P (last invoked))"
    and "(\<forall>x \<in> set rs. P x) \<longrightarrow> invoked = rs"
proof -
  show "\<forall>x \<in> set (butlast invoked). P x"
  proof (cases "dropWhile P rs")
    case Nil
    with assms have "invoked = takeWhile P rs" by simp
    then show ?thesis by (auto dest: in_set_butlastD set_takeWhileD)
  next
    case (Cons y ys)
    with assms have "butlast invoked = takeWhile P rs" by (simp add: butlast_append)
    then show ?thesis by (auto dest: set_takeWhileD)
  qed
  show "(\<forall>x \<in> set rs. P x) \<longleftrightarrow> (invoked = [] \<or> P (last invoked))"
  proof (cases "dropWhile P rs")
    case Nil
    then have all: "\<forall>x \<in> set rs. P x" by (simp add: dropWhile_eq_Nil_conv)
    then have "takeWhile P rs = rs" by (simp add: takeWhile_eq_all_conv)
    with Nil assms have "invoked = rs" by simp
    with all show ?thesis by (cases "rs = []") auto
  next
    case (Cons y ys)
    then have ny: "\<not> P y" using hd_dropWhile[of P rs] by auto
    from Cons have "y \<in> set rs" by (metis list.set_intros(1) set_dropWhileD)
    with ny have "\<not> (\<forall>x \<in> set rs. P x)" by blast
    moreover from Cons assms have "invoked \<noteq> []" "last invoked = y" by simp_all
    ultimately show ?thesis using ny by simp
  qed
  show "(\<forall>x \<in> set rs. P x) \<longrightarrow> invoked = rs"
    using assms by (simp add: takeWhile_eq_all_conv[THEN iffD2] dropWhile_eq_Nil_conv[THEN iffD2])
qed

lemma outcome_result_cases:
  "(outcome_result r = Inr True \<longleftrightarrow> r = Returned True) \<and>
   (outcome_result r = Inl b \<longleftrightarrow> r = RaisedBase b) \<and>
   (outcome_result r = Inr False \<longleftrightarrow> \<not> ends_walk r)"
  by (cases r rule: ends_walk.cases) auto

lemmas example_defs = example_A_def example_B_def example_raising_def example_cancelled_def
  example_exit_def example_plugin_def
  example_message_def extract_command_def get_text_def str_def startswith_def strip_def
  isspace_def split_space_once_def config_trigger_keyword_def new_event_def
  should_trigger_def is_LunarEvent_def is_MessageEvent_def Let_def

text \<open>
  Claim C2, amended.  The snapshot produced by \<open>_sort_plugins_by_priority\<close> is sorted by
  ascending priority, is a permutation of the loaded plugins, and keeps plugins of equal
  priority in their discovery order.  A walk of that snapshot calls the handlers of the
  invocable plugins in snapshot order, hence in ascending priority, each on the event as
  the plugins before it left it, and records what each call reports; it goes on as long
  as the calls report "not handled" or raise an exception of class \<open>Exception\<close>, and
  ends with the first call that reports "handled" or raises an exception outside that
  class.  \<open>handle_event\<close> returns true exactly when the last call reported "handled",
  returns false exactly when no call of the whole snapshot ends the walk (every
  invocable handler was then called), and is left by the exception exactly when the last
  call raised one outside class \<open>Exception\<close>.
\<close>

theorem handle_event_priority_order:
  "handle_event cfg (sort_plugins_by_priority ps) ev = (res, ev', invoked) \<Longrightarrow>
   sorted (map (\<lambda>x. priority (snd x)) (sort_plugins_by_priority ps)) \<and>
   mset (sort_plugins_by_priority ps) = mset ps \<and>
   (\<forall>k. filter (\<lambda>x. priority (snd x) = k) (sort_plugins_by_priority ps) =
        filter (\<lambda>x. priority (snd x) = k) ps) \<and>
   map fst (reports cfg ev (sort_plugins_by_priority ps)) =
     map fst (filter (invocable cfg ev) (sort_plugins_by_priority ps)) \<and>
   invoked =
     takeWhile (\<lambda>x. \<not> ends_walk (snd x)) (reports cfg ev (sort_plugins_by_priority ps)) @
     take 1 (dropWhile (\<lambda>x. \<not> ends_walk (snd x))
       (reports cfg ev (sort_plugins_by_priority ps))) \<and>
   map fst invoked =
     map fst (take (length invoked)
       (filter (invocable cfg ev) (sort_plugins_by_priority ps))) \<and>
   sorted (map (\<lambda>x. priority (snd x)) (take (length invoked)
       (filter (invocable cfg ev) (sort_plugins_by_priority ps)))) \<and>
   (\<forall>x \<in> set (butlast invoked). \<not> ends_walk (snd x)) \<and>
   res = (if invoked = [] then Inr False else outcome_result (snd (last invoked))) \<and>
   (res = Inr True \<longleftrightarrow> invoked \<noteq> [] \<and> snd (last invoked) = Returned True) \<and>
   (res = Inr False \<longleftrightarrow>
      (\<forall>x \<in> set (reports cfg ev (sort_plugins_by_priority ps)). \<not> ends_walk (snd x))) \<and>
   (res = Inr False \<longrightarrow> invoked = reports cfg ev (sort_plugins_by_priority ps)) \<and>
   (\<forall>b. res = Inl b \<longleftrightarrow> invoked \<noteq> [] \<and> snd (last invoked) = RaisedBase b)"
proof -
  assume run: "handle_event cfg (sort_plugins_by_priority ps) ev = (res, ev', invoked)"
  let ?snapshot = "sort_plugins_by_priority ps"
  let ?P = "\<lambda>x. \<not> ends_walk (snd x)"
  let ?rs = "reports cfg ev ?snapshot"
  have s: "sorted (map (\<lambda>x. priority (snd x)) ?snapshot)"
    by (simp add: sort_plugins_by_priority_def)
  then have "sorted (map (\<lambda>x. priority (snd x)) (filter (invocable cfg ev) ?snapshot))"
    by (rule sorted_filter)
  then have w: "sorted (map (\<lambda>x. priority (snd x))
      (take (length invoked) (filter (invocable cfg ev) ?snapshot)))"
    by (simp add: take_map[symmetric] sorted_wrt_take)
  have m: "mset ?snapshot = mset ps"
    by (simp add: sort_plugins_by_priority_def)
  have st: "\<forall>k. filter (\<lambda>x. priority (snd x) = k) ?snapshot =
        filter (\<lambda>x. priority (snd x) = k) ps"
    by (simp add: sort_plugins_by_priority_def sort_key_stable)
  have ri: "map fst ?rs = map fst (filter (invocable cfg ev) ?snapshot)"
    by (rule reports_invocable)
  from handle_event_walk[OF run]
  have names: "map fst invoked =
      map fst (take (length invoked) (filter (invocable cfg ev) ?snapshot))"
    by blast
  from handle_event_reports[OF run]
  have inv: "invoked = takeWhile ?P ?rs @ take 1 (dropWhile ?P ?rs)"
    and res: "res = (if invoked = [] then Inr False else outcome_result (snd (last invoked)))"
    by blast+
  note wp = walk_prefix[where P = ?P, OF inv]
  have bl: "\<forall>x \<in> set (butlast invoked). \<not> ends_walk (snd x)"
    using wp(1) .
  have t: "res = Inr True \<longleftrightarrow> invoked \<noteq> [] \<and> snd (last invoked) = Returned True"
    using res outcome_result_cases[of "snd (last invoked)"] by auto
  have f: "res = Inr False \<longleftrightarrow> (\<forall>x \<in> set ?rs. \<not> ends_walk (snd x))"
    using res wp(2) outcome_result_cases[of "snd (last invoked)"] by auto
  have fa: "res = Inr False \<longrightarrow> invoked = ?rs"
    using f wp(3) by blast
  have b: "\<forall>b. res = Inl b \<longleftrightarrow> invoked \<noteq> [] \<and> snd (last invoked) = RaisedBase b"
    using res outcome_result_cases[of "snd (last invoked)"] by auto
  show ?thesis
    by (intro conjI) (fact s m st ri inv names w bl res t f fa b)+
qed

theorem handle_event_priority_order_witness:
  "handle_event \<lparr>trigger_keyword = None\<rparr> (sort_plugins_by_priority [example_B, example_A])
     (example_message ''/ping'') =
     (Inr True, example_message ''/ping'', [(str ''a'', Returned True)]) \<and>
   map fst (sort_plugins_by_priority [example_B, example_A]) = [str ''a'', str ''b''] \<and>
   sorted (map (\<lambda>x. priority (snd x)) (sort_plugins_by_priority [example_B, example_A])) \<and>
   reports \<lparr>trigger_keyword = None\<rparr> (example_message ''/ping'')
     (sort_plugins_by_priority [example_B, example_A]) =
     [(str ''a'', Returned True), (str ''b'', Returned False)] \<and>
   handle_event \<lparr>trigger_keyword = None\<rparr> (sort_plugins_by_priority [example_B, example_A])
     (example_message ''hello'') =
     (Inr False, example_message ''hello'', [(str ''b'', Returned False)])"
proof -
  have sorted_snapshot: "sort_plugins_by_priority [example_B, example_A] = [example_A, example_B]"
    by (simp add: sort_plugins_by_priority_def example_A_def example_B_def example_plugin_def)
  have run: "handle_event \<lparr>trigger_keyword = None\<rparr> (sort_plugins_by_priority [example_B, example_A])
     (example_message ''/ping'') =
     (Inr True, example_message ''/ping'', [(str ''a'', Returned True)])"
    unfolding sorted_snapshot by (simp add: example_defs)
  have run2: "handle_event \<lparr>trigger_keyword = None\<rparr> (sort_plugins_by_priority [example_B, example_A])
     (example_message ''hello'') =
     (Inr False, example_message ''hello'', [(str ''b'', Returned False)])"
    unfolding sorted_snapshot by (simp add: example_defs)
  have names: "map fst [example_A, example_B] = [str ''a'', str ''b'']"
    by (simp add: example_A_def example_B_def example_plugin_def)
  have rep: "reports \<lparr>trigger_keyword = None\<rparr> (example_message ''/ping'')
     (sort_plugins_by_priority [example_B, example_A]) =
     [(str ''a'', Returned True), (str ''b'', Returned False)]"
    unfolding sorted_snapshot by (simp add: invoke_def example_defs)
  from handle_event_priority_order[OF run]
  have "sorted (map (\<lambda>x. priority (snd x)) (sort_plugins_by_priority [example_B, example_A]))"
    by blast
  with run run2 names rep show ?thesis
    unfolding sorted_snapshot by simp
qed

text \<open>
  Claim C2 as stated fails where it says that dispatch returns false whenever no handler
  reports "handled": after \<open>B\<close> has reported "not handled", a handler that exits the
  interpreter raises \<open>SystemExit\<close>, which the \<open>except Exception\<close> of the loop does not
  catch; no handler has reported "handled", and \<open>handle_event\<close> does not return false,
  it is left by the exception.
\<close>

theorem handle_event_returns_false_counterexample:
  "handle_event \<lparr>trigger_keyword = None\<rparr> (sort_plugins_by_priority [example_exit, example_B])
     (example_message ''hello'') =
     (Inl SystemExit, example_message ''hello'',
      [(str ''b'', Returned False), (str ''x'', RaisedBase SystemExit)]) \<and>
   fst (handle_event \<lparr>trigger_keyword = None\<rparr> (sort_plugins_by_priority [example_exit, example_B])
     (example_message ''hello'')) \<noteq> Inr False"
proof -
  have sorted_snapshot: "sort_plugins_by_priority [example_exit, example_B] = [example_B, example_exit]"
    by (simp add: sort_plugins_by_priority_def example_exit_def example_B_def example_plugin_def)
  show ?thesis
    unfolding sorted_snapshot by (simp add: example_defs)
qed

text \<open>
  Claim C5, amended.  A handler whose invocation raises an exception of class
  \<open>Exception\<close> is treated as a handler that reported "not handled": the walk goes on with
  the remaining plugins, with the event as the trigger test left it; and for every
  registry and event, the result, the event the walk leaves and the handlers invoked
  are those of the same registry with every such raise replaced by the report "not
  handled".  As long as no handler raises an exception outside class \<open>Exception\<close>,
  \<open>handle_event\<close> returns a truth value and the listening loop dispatches every event of
  the stream, each with the result it has on its own.  An exception outside class
  \<open>Exception\<close> is not caught: it ends the walk at that handler, leaves \<open>handle_event\<close>
  and ends the listening loop, so that the events after it are not dispatched.
\<close>

theorem handle_event_exception_isolated:
  "(fst (invoke cfg ev p) = Some (Raised e) \<longrightarrow>
      handle_event cfg (p # rest) ev =
        (case handle_event cfg rest (snd (invoke cfg ev p)) of
           (res, ev', invoked) \<Rightarrow> (res, ev', (fst p, Raised e) # invoked))) \<and>
   handle_event cfg (map quiet_plugin ps) ev =
     (case handle_event cfg ps ev of
        (res, ev', invoked) \<Rightarrow> (res, ev', map (\<lambda>x. (fst x, calm (snd x))) invoked)) \<and>
   ((\<forall>x \<in> set (reports cfg ev ps). \<forall>b. snd x \<noteq> RaisedBase b) \<longrightarrow>
      (\<exists>handled. fst (handle_event cfg ps ev) = Inr handled)) \<and>
   ((\<forall>e \<in> set evs. \<forall>x \<in> set (reports cfg e ps). \<forall>b. snd x \<noteq> RaisedBase b) \<longrightarrow>
      listen_events cfg ps evs =
        map (\<lambda>e. (fst (handle_event cfg ps e), snd (snd (handle_event cfg ps e)))) evs) \<and>
   (fst (invoke cfg ev p) = Some (RaisedBase b) \<longrightarrow>
      handle_event cfg (p # rest) ev =
        (Inl b, snd (invoke cfg ev p), [(fst p, RaisedBase b)])) \<and>
   (fst (handle_event cfg ps ev) = Inl b \<longrightarrow>
      listen_events cfg ps (ev # evs) = [(Inl b, snd (snd (handle_event cfg ps ev)))])"
proof -
  have 1: "fst (invoke cfg ev p) = Some (Raised e) \<longrightarrow>
      handle_event cfg (p # rest) ev =
        (case handle_event cfg rest (snd (invoke cfg ev p)) of
           (res, ev', invoked) \<Rightarrow> (res, ev', (fst p, Raised e) # invoked))"
    by (simp add: handle_event_step_continue)
  have 2: "handle_event cfg (map quiet_plugin ps) ev =
     (case handle_event cfg ps ev of
        (res, ev', invoked) \<Rightarrow> (res, ev', map (\<lambda>x. (fst x, calm (snd x))) invoked))"
    by (rule handle_event_quiet)
  have 3: "(\<forall>x \<in> set (reports cfg ev ps). \<forall>b. snd x \<noteq> RaisedBase b) \<longrightarrow>
      (\<exists>handled. fst (handle_event cfg ps ev) = Inr handled)"
    using handle_event_returns by blast
  have 4: "(\<forall>e \<in> set evs. \<forall>x \<in> set (reports cfg e ps). \<forall>b. snd x \<noteq> RaisedBase b) \<longrightarrow>
      listen_events cfg ps evs =
        map (\<lambda>e. (fst (handle_event cfg ps e), snd (snd (handle_event cfg ps e)))) evs"
    using listen_events_all by blast
  have 5: "fst (invoke cfg ev p) = Some (RaisedBase b) \<longrightarrow>
      handle_event cfg (p # rest) ev =
        (Inl b, snd (invoke cfg ev p), [(fst p, RaisedBase b)])"
    by (simp add: handle_event_step_ends)
  have 6: "fst (handle_event cfg ps ev) = Inl b \<longrightarrow>
      listen_events cfg ps (ev # evs) = [(Inl b, snd (snd (handle_event cfg ps ev)))]"
    using listen_events_base by blast
  show ?thesis
    by (intro conjI) (fact 1 2 3 4 5 6)+
qed

theorem handle_event_exception_isolated_witness:
  "handle_event \<lparr>trigger_keyword = None\<rparr> [example_raising, example_B] (example_message ''hello'') =
     (Inr False, example_message ''hello'',
      [(str ''c'', Raised (str ''boom'')), (str ''b'', Returned False)]) \<and>
   listen_events \<lparr>trigger_keyword = None\<rparr> [example_raising, example_A]
     [example_message ''hello'', example_message ''/ping''] =
     [(Inr False, [(str ''c'', Raised (str ''boom''))]),
      (Inr True, [(str ''c'', Raised (str ''boom'')), (str ''a'', Returned True)])]"
proof -
  let ?cfg = "\<lparr>trigger_keyword = None\<rparr>"
  have inv: "invoke ?cfg (example_message ''hello'') example_raising =
      (Some (Raised (str ''boom'')), example_message ''hello'')"
    by (simp add: invoke_def example_defs)
  have rest: "handle_event ?cfg [example_B] (example_message ''hello'') =
      (Inr False, example_message ''hello'', [(str ''b'', Returned False)])"
    by (simp add: example_defs)
  have name: "fst example_raising = str ''c''"
    by (simp add: example_raising_def example_plugin_def)
  have r1: "reports ?cfg (example_message ''hello'') [example_raising, example_A] =
      [(str ''c'', Raised (str ''boom''))]"
    by (simp add: invoke_def example_defs)
  have r2: "reports ?cfg (example_message ''/ping'') [example_raising, example_A] =
      [(str ''c'', Raised (str ''boom'')), (str ''a'', Returned True)]"
    by (simp add: invoke_def example_defs)
  have h1: "handle_event ?cfg [example_raising, example_A] (example_message ''hello'') =
      (Inr False, example_message ''hello'', [(str ''c'', Raised (str ''boom''))])"
    by (simp add: example_defs)
  have h2: "handle_event ?cfg [example_raising, example_A] (example_message ''/ping'') =
      (Inr True, example_message ''/ping'',
       [(str ''c'', Raised (str ''boom'')), (str ''a'', Returned True)])"
    by (simp add: example_defs)
  note inst = handle_event_exception_isolated[where cfg = ?cfg
      and ev = "example_message ''hello''" and p = example_raising and e = "str ''boom''"
      and rest = "[example_B]" and ps = "[example_raising, example_A]"
      and evs = "[example_message ''hello'', example_message ''/ping'']"]
  from inst inv rest name have a:
    "handle_event ?cfg [example_raising, example_B] (example_message ''hello'') =
     (Inr False, example_message ''hello'',
      [(str ''c'', Raised (str ''boom'')), (str ''b'', Returned False)])"
    by simp
  have hyp: "\<forall>e \<in> set [example_message ''hello'', example_message ''/ping''].
      \<forall>x \<in> set (reports ?cfg e [example_raising, example_A]). \<forall>b. snd x \<noteq> RaisedBase b"
    by (simp add: r1 r2 del: reports.simps)
  from inst hyp have b:
    "listen_events ?cfg [example_raising, example_A]
       [example_message ''hello'', example_message ''/ping''] =
     map (\<lambda>e. (fst (handle_event ?cfg [example_raising, example_A] e),
                snd (snd (handle_event ?cfg [example_raising, example_A] e))))
       [example_message ''hello'', example_message ''/ping'']"
    by blast
  from a b show ?thesis by (simp add: h1 h2)
qed

text \<open>
  Claim C5 as stated fails for an exception outside class \<open>Exception\<close>: a handler that
  is cancelled while it runs raises \<open>asyncio.CancelledError\<close>, which the
  \<open>except Exception\<close> of the loop does not catch.  The walk does not go on to \<open>B\<close>, which
  the same event triggers, \<open>handle_event\<close> is left by the exception, and the listening
  loop ends without dispatching the next event.
\<close>

theorem handle_event_base_exception_counterexample:
  "handle_event \<lparr>trigger_keyword = None\<rparr> [example_cancelled, example_B] (example_message ''hello'') =
     (Inl TaskCancelled, example_message ''hello'', [(str ''k'', RaisedBase TaskCancelled)]) \<and>
   handle_event \<lparr>trigger_keyword = None\<rparr> [example_B] (example_message ''hello'') =
     (Inr False, example_message ''hello'', [(str ''b'', Returned False)]) \<and>
   listen_events \<lparr>trigger_keyword = None\<rparr> [example_cancelled, example_B]
     [example_message ''hello'', example_message ''/ping''] =
     [(Inl TaskCancelled, [(str ''k'', RaisedBase TaskCancelled)])]"
  by (simp add: example_defs)

end
